theory Spec2Isabelle
  imports Main
begin

section \<open>Response trees\<close>

text \<open>
  A response (\<open>PayloadData\<close>) is a JSON tree.  An absent key is JavaScript's
  \<open>undefined\<close> and is the \<open>None\<close> of a lookup; \<open>JNull\<close> is an explicit \<open>null\<close>.
  Numbers are the integer-valued ones, which is all the normalizer can tell apart: it
  copies a number, tests it for zero, or turns it into a property key.

  A response and the variables of a call are parsed JSON, but \<open>data[key]\<close> follows the
  prototype chain of \<open>data\<close>: on a key that the object does not own it finds what
  \<open>Object.prototype\<close> (and, for an array, \<open>Array.prototype\<close>) holds under that name.
  \<open>JFunction p k\<close> is the built-in function that the prototype \<open>p\<close> holds under the name
  \<open>k\<close>, and \<open>JPrototype p\<close> is the prototype object itself, the value of \<open>__proto__\<close>.
  These two are values that a lookup can return; no parsed response or variable holds
  them.
\<close>

type_synonym dataID = string

datatype prototype = ObjectPrototype | ArrayPrototype

datatype json =
    JNull
  | JBool bool
  | JNum int
  | JStr string
  | JArr "json list"
  | JObj "(string \<times> json) list"
  | JFunction prototype string
  | JPrototype prototype

text \<open>
  The names under which the two prototypes hold a function of their own (those of a
  current engine; the normalizer never calls one, it only finds it).
\<close>

definition object_functions :: "string list" where
  "object_functions =
     [''constructor'', ''hasOwnProperty'', ''isPrototypeOf'', ''propertyIsEnumerable'',
      ''toLocaleString'', ''toString'', ''valueOf'', ''__defineGetter__'',
      ''__defineSetter__'', ''__lookupGetter__'', ''__lookupSetter__'']"

definition array_functions :: "string list" where
  "array_functions =
     [''constructor'', ''at'', ''concat'', ''copyWithin'', ''entries'', ''every'', ''fill'',
      ''filter'', ''find'', ''findIndex'', ''findLast'', ''findLastIndex'', ''flat'',
      ''flatMap'', ''forEach'', ''includes'', ''indexOf'', ''join'', ''keys'',
      ''lastIndexOf'', ''map'', ''pop'', ''push'', ''reduce'', ''reduceRight'', ''reverse'',
      ''shift'', ''slice'', ''some'', ''sort'', ''splice'', ''toLocaleString'',
      ''toReversed'', ''toSorted'', ''toSpliced'', ''toString'', ''unshift'', ''values'',
      ''with'']"

text \<open>
  \<open>typeof v === 'object' && v\<close>: objects and arrays (the two prototypes are an object and an
  array), not \<open>null\<close> and not a function.
\<close>

fun is_object :: "json \<Rightarrow> bool" where
  "is_object (JObj kvs) = True"
| "is_object (JArr xs) = True"
| "is_object (JPrototype p) = True"
| "is_object v = False"

text \<open>The values that \<open>||\<close> takes for true.\<close>

fun truthy :: "json \<Rightarrow> bool" where
  "truthy JNull = False"
| "truthy (JBool b) = b"
| "truthy (JNum n) = (n \<noteq> 0)"
| "truthy (JStr s) = (s \<noteq> [])"
| "truthy (JArr xs) = True"
| "truthy (JObj kvs) = True"
| "truthy (JFunction p k) = True"
| "truthy (JPrototype p) = True"

text \<open>\<open>typeof v === 'boolean'\<close>.\<close>

fun is_boolean :: "json \<Rightarrow> bool" where
  "is_boolean (JBool b) = True"
| "is_boolean v = False"

text \<open>\<open>String(n)\<close> for an array index.\<close>

fun string_of_nat :: "nat \<Rightarrow> string" where
  "string_of_nat n =
     (if n < 10 then [''0123456789'' ! n]
      else string_of_nat (n div 10) @ [''0123456789'' ! (n mod 10)])"

declare string_of_nat.simps [simp del]

definition string_of_int :: "int \<Rightarrow> string" where
  "string_of_int i =
     (if i < 0 then CHR ''-'' # string_of_nat (nat (- i)) else string_of_nat (nat i))"

fun join_comma :: "string list \<Rightarrow> string" where
  "join_comma [] = []"
| "join_comma [s] = s"
| "join_comma (s # t # ss) = s @ CHR '','' # join_comma (t # ss)"

text \<open>
  The string a value becomes when it is used as a property key
  (\<open>matchesByType[typeName]\<close>): JavaScript's \<open>ToString\<close>.  An object is converted by
  its \<open>toString\<close>, which is the function of \<open>Object.prototype\<close> unless the object has a
  key of that name: its value, a parsed one, cannot be called, \<open>valueOf\<close> gives no
  primitive value either, and the conversion is a \<open>TypeError\<close>, which is \<open>None\<close>.  An
  array joins the strings of its elements.  A built-in function prints as native code
  under its name, \<open>Object.prototype\<close> as any object does and \<open>Array.prototype\<close> as the
  empty array it is.
\<close>

fun to_key :: "json \<Rightarrow> string option" where
  "to_key JNull = Some ''null''"
| "to_key (JBool b) = Some (if b then ''true'' else ''false'')"
| "to_key (JNum n) = Some (string_of_int n)"
| "to_key (JStr s) = Some s"
| "to_key (JArr xs) =
     map_option join_comma (those (map (\<lambda>x. if x = JNull then Some [] else to_key x) xs))"
| "to_key (JObj kvs) =
     (if map_of kvs ''toString'' = None then Some ''[object Object]'' else None)"
| "to_key (JFunction p k) =
     Some (''function '' @
           (if k = ''constructor''
            then (case p of ObjectPrototype \<Rightarrow> ''Object'' | ArrayPrototype \<Rightarrow> ''Array'')
            else k) @ ''() { [native code] }'')"
| "to_key (JPrototype ObjectPrototype) = Some ''[object Object]''"
| "to_key (JPrototype ArrayPrototype) = Some []"

text \<open>
  The properties a value owns (\<open>Object.prototype.hasOwnProperty.call(data, key)\<close> is
  whether \<open>own_prop\<close> finds one): the keys of an object; the indices and the length of an
  array; the functions of a prototype, with the \<open>__proto__\<close> of \<open>Object.prototype\<close>, which
  is \<open>null\<close> there, and the length of \<open>Array.prototype\<close>.
\<close>

fun own_prop :: "json \<Rightarrow> string \<Rightarrow> json option" where
  "own_prop (JObj kvs) k = map_of kvs k"
| "own_prop (JArr xs) k =
     (if k = ''length'' then Some (JNum (int (length xs)))
      else map_of (zip (map string_of_nat [0..<length xs]) xs) k)"
| "own_prop (JPrototype ObjectPrototype) k =
     (if k = ''__proto__'' then Some JNull
      else if k \<in> set object_functions then Some (JFunction ObjectPrototype k) else None)"
| "own_prop (JPrototype ArrayPrototype) k =
     (if k = ''length'' then Some (JNum 0)
      else if k \<in> set array_functions then Some (JFunction ArrayPrototype k) else None)"
| "own_prop v k = None"

text \<open>
  What \<open>Object.prototype\<close> gives to every object below it: its functions, and under
  \<open>__proto__\<close> the prototype of the object that is asked (\<open>null\<close> for \<open>Object.prototype\<close>
  itself).
\<close>

definition from_object_prototype :: "json \<Rightarrow> string \<Rightarrow> json option" where
  "from_object_prototype proto k =
     (if k = ''__proto__'' then Some proto else own_prop (JPrototype ObjectPrototype) k)"

text \<open>
  \<open>data[key]\<close> on a value that passed the object test: the value's own property, or else
  the first one along its prototype chain.
\<close>

fun get_prop :: "json \<Rightarrow> string \<Rightarrow> json option" where
  "get_prop (JObj kvs) k =
     (case map_of kvs k of
        Some v \<Rightarrow> Some v
      | None \<Rightarrow> from_object_prototype (JPrototype ObjectPrototype) k)"
| "get_prop (JArr xs) k =
     (case own_prop (JArr xs) k of
        Some v \<Rightarrow> Some v
      | None \<Rightarrow>
          (case own_prop (JPrototype ArrayPrototype) k of
             Some v \<Rightarrow> Some v
           | None \<Rightarrow> from_object_prototype (JPrototype ArrayPrototype) k))"
| "get_prop (JPrototype ObjectPrototype) k = from_object_prototype JNull k"
| "get_prop (JPrototype ArrayPrototype) k =
     (case own_prop (JPrototype ArrayPrototype) k of
        Some v \<Rightarrow> Some v
      | None \<Rightarrow> from_object_prototype (JPrototype ObjectPrototype) k)"
| "get_prop v k = None"

text \<open>\<open>Array.isArray(v)\<close>, with the elements: \<open>Array.prototype\<close> is an array with none.\<close>

fun as_array :: "json \<Rightarrow> json list option" where
  "as_array (JArr xs) = Some xs"
| "as_array (JPrototype ArrayPrototype) = Some []"
| "as_array v = None"

section \<open>Records and the record source\<close>

text \<open>
  Modelled from the spec: \<open>RelayModernRecord\<close> is not part of the sources.  The spec's
  data model has a record carry its identity, a runtime type tag and a bag of fields keyed
  by storage key, where a field holds a scalar, one linked identity, or an ordered list of
  linked identities with nullable entries.  The accessors below are that interface:
  get/set of a scalar, of a linked identity, of a list of linked identities, the type, the
  identity, and \<open>create\<close>.  A typed getter on a field of another shape finds nothing.
\<close>

datatype field_value =
    Scalar json
  | Link dataID
  | Links "dataID option list"

record relay_record =
  rec_id :: dataID
  rec_type :: json
  rec_fields :: "string \<Rightarrow> field_value option"

definition create :: "dataID \<Rightarrow> json \<Rightarrow> relay_record" where
  "create dataID typeName = \<lparr>rec_id = dataID, rec_type = typeName, rec_fields = Map.empty\<rparr>"

definition getDataID :: "relay_record \<Rightarrow> dataID" where
  "getDataID r = rec_id r"

definition getType :: "relay_record \<Rightarrow> json" where
  "getType r = rec_type r"

definition getValue :: "relay_record \<Rightarrow> string \<Rightarrow> field_value option" where
  "getValue r k = rec_fields r k"

definition setValue :: "relay_record \<Rightarrow> string \<Rightarrow> json \<Rightarrow> relay_record" where
  "setValue r k v = r\<lparr>rec_fields := (rec_fields r)(k \<mapsto> Scalar v)\<rparr>"

definition getLinkedRecordID :: "relay_record \<Rightarrow> string \<Rightarrow> dataID option" where
  "getLinkedRecordID r k = (case rec_fields r k of Some (Link i) \<Rightarrow> Some i | _ \<Rightarrow> None)"

definition setLinkedRecordID :: "relay_record \<Rightarrow> string \<Rightarrow> dataID \<Rightarrow> relay_record" where
  "setLinkedRecordID r k i = r\<lparr>rec_fields := (rec_fields r)(k \<mapsto> Link i)\<rparr>"

definition getLinkedRecordIDs :: "relay_record \<Rightarrow> string \<Rightarrow> dataID option list option" where
  "getLinkedRecordIDs r k = (case rec_fields r k of Some (Links is) \<Rightarrow> Some is | _ \<Rightarrow> None)"

definition setLinkedRecordIDs ::
  "relay_record \<Rightarrow> string \<Rightarrow> dataID option list \<Rightarrow> relay_record" where
  "setLinkedRecordIDs r k is = r\<lparr>rec_fields := (rec_fields r)(k \<mapsto> Links is)\<rparr>"

section \<open>Selection trees\<close>

text \<open>
  The node types of \<open>NormalizationNode\<close> are declared outside the sources; the fields
  below are the ones the normalizer reads.  \<open>f_args\<close> and \<open>f_storageKey\<close> are only handed
  to the storage-key codec.
\<close>

datatype argument =
    Literal string json
  | Variable string string

record field_info =
  f_alias :: "string option"
  f_name :: string
  f_args :: "argument list option"
  f_storageKey :: "string option"

record handle_info =
  h_field :: field_info
  h_handle :: string
  h_key :: string

datatype node =
    ScalarField field_info
  | LinkedField field_info "string option" bool "node list"
  | Condition string bool "node list"
  | InlineFragment string "node list"
  | LinkedHandle handle_info
  | ScalarHandle handle_info
  | MatchField field_info "(string \<times> string) list"
  | Defer "string option" string "node list"
  | Stream "string option" string "node list"
  | Fragment "node list"
  | FragmentSpread string
  | Operation string "node list"

text \<open>
  \<open>LinkedField f concreteType plural selections\<close>; \<open>Condition condition passingValue
  selections\<close>; \<open>InlineFragment type selections\<close>; \<open>MatchField f matchesByType\<close>;
  \<open>Defer if label selections\<close> and \<open>Stream if label selections\<close>, where \<open>if\<close> is \<open>null\<close>
  or the name of a variable.  \<open>Operation kind selections\<close> is a node of any other kind that
  has selections: the root of a query.
\<close>

fun concreteType :: "node \<Rightarrow> string option" where
  "concreteType (LinkedField f ct pl sels) = ct"
| "concreteType n = None"

fun is_linked_field :: "node \<Rightarrow> bool" where
  "is_linked_field (LinkedField f ct pl sels) = True"
| "is_linked_field n = False"

type_synonym variables = "(string \<times> json) list"

section \<open>The normalizer\<close>

datatype incremental_kind = KDefer | KStream

record selector =
  sel_dataID :: dataID
  sel_node :: node
  sel_variables :: variables

record incremental_payload =
  ip_kind :: incremental_kind
  ip_label :: string
  ip_path :: "string list"
  ip_selector :: selector

record handle_payload =
  hp_args :: "(string \<times> json) list"
  hp_dataID :: dataID
  hp_fieldKey :: string
  hp_handle :: string
  hp_handleKey :: string

record match_payload =
  mp_operationReference :: json
  mp_dataID :: dataID
  mp_data :: json
  mp_typeName :: json
  mp_variables :: variables

text \<open>The diagnostics of \<open>warning\<close>, which never change what the call does.\<close>

datatype diagnostic =
    DeferIfNotBoolean json
  | StreamIfNotBoolean json
  | PayloadMissingField string string
  | ConflictingTypes dataID json json

text \<open>
  The failures of \<open>invariant\<close>, and the three \<open>TypeError\<close>s: of a node without
  selections, of a call of something that is no function, and of a property key that has
  no primitive value.
\<close>

datatype error =
    MissingRoot dataID
  | UndefinedVariable string
  | NotAFunction string
  | NoPrimitiveValue json
  | MissingTypename json
  | ExpectedDataObject string
  | ExpectedFieldObject string
  | ExpectedArray string
  | ExpectedElementObject string
  | ExpectedStringID string
  | ExpectedStringElementID string
  | UnexpectedKind
  | NoSelections
  | DanglingRecord dataID

text \<open>
  What one call does not change: the variables and the option, the \<open>__DEV__\<close> flag, and
  the helpers of \<open>RelayStoreUtils\<close> and \<open>generateRelayClientID\<close>, which are not part of
  the sources and are taken as parameters, with the two reserved keys.
\<close>

record normalizer =
  variables :: variables
  handleStrippedNulls :: bool
  dev :: bool
  getStorageKey :: "field_info \<Rightarrow> variables \<Rightarrow> string"
  getHandleStorageKey :: "handle_info \<Rightarrow> variables \<Rightarrow> string"
  getArgumentValues :: "argument list \<Rightarrow> variables \<Rightarrow> (string \<times> json) list"
  generateRelayClientID :: "dataID \<Rightarrow> string \<Rightarrow> nat option \<Rightarrow> dataID"
  TYPENAME_KEY :: string
  MATCH_FRAGMENT_KEY :: string

text \<open>
  What the call changes: the record source, the three payload lists, the path, and the
  diagnostics printed so far.  A record is referred to by its key in the record source:
  the normalizer sets a key only where it found no record, so during a call a key never
  changes the record object it stands for.
\<close>

record nstate =
  recordSource :: "dataID \<Rightarrow> relay_record option"
  incrementalPayloads :: "incremental_payload list"
  handleFieldPayloads :: "handle_payload list"
  matchFieldPayloads :: "match_payload list"
  path :: "string list"
  warnings :: "diagnostic list"

text \<open>
  A failure keeps the state it was raised in: what was written before is not rolled back.
  \<open>DanglingRecord\<close> stands for a reference to no record, which the source cannot hold.
\<close>

type_synonym result = "(error \<times> nstate) + nstate"

definition updateRecord :: "dataID \<Rightarrow> (relay_record \<Rightarrow> relay_record) \<Rightarrow> nstate \<Rightarrow> nstate" where
  "updateRecord rid f st =
     (case recordSource st rid of
        None \<Rightarrow> st
      | Some r \<Rightarrow> st\<lparr>recordSource := (recordSource st)(rid \<mapsto> f r)\<rparr>)"

definition warn :: "diagnostic \<Rightarrow> nstate \<Rightarrow> nstate" where
  "warn d st = st\<lparr>warnings := warnings st @ [d]\<rparr>"

text \<open>
  \<open>this._variables.hasOwnProperty(name)\<close> calls what the variables hold under
  \<open>hasOwnProperty\<close>.  That is the function of \<open>Object.prototype\<close> unless a variable has
  that name: its value, a parsed one, is then called, which is a \<open>TypeError\<close>.
\<close>

definition getVariableValue :: "normalizer \<Rightarrow> string \<Rightarrow> error + json" where
  "getVariableValue env name =
     (if map_of (variables env) ''hasOwnProperty'' \<noteq> None
      then Inl (NotAFunction ''hasOwnProperty'')
      else
        (case map_of (variables env) name of
           None \<Rightarrow> Inl (UndefinedVariable name)
         | Some v \<Rightarrow> Inr v))"

definition getRecordType :: "normalizer \<Rightarrow> json \<Rightarrow> error + json" where
  "getRecordType env data =
     (case get_prop data (TYPENAME_KEY env) of
        None \<Rightarrow> Inl (MissingTypename data)
      | Some JNull \<Rightarrow> Inl (MissingTypename data)
      | Some typeName \<Rightarrow> Inr typeName)"

text \<open>\<open>field.concreteType || this._getRecordType(payload)\<close>.\<close>

definition concreteOrRecordType :: "normalizer \<Rightarrow> node \<Rightarrow> json \<Rightarrow> error + json" where
  "concreteOrRecordType env field payload =
     (case concreteType field of
        None \<Rightarrow> getRecordType env payload
      | Some ct \<Rightarrow> if ct \<noteq> [] then Inr (JStr ct) else getRecordType env payload)"

text \<open>
  \<open>===\<close> on type names: primitives by value; two objects or arrays are the same only as
  the same reference, which a stored type and a payload's type are not.
\<close>

fun strict_eq :: "json \<Rightarrow> json \<Rightarrow> bool" where
  "strict_eq (JArr xs) w = False"
| "strict_eq (JObj kvs) w = False"
| "strict_eq v w = (v = w)"

definition validateRecordType :: "normalizer \<Rightarrow> dataID \<Rightarrow> node \<Rightarrow> json \<Rightarrow> nstate \<Rightarrow> result" where
  "validateRecordType env rid field payload st =
     (case (if is_linked_field field then concreteOrRecordType env field payload
            else getRecordType env payload) of
        Inl e \<Rightarrow> Inl (e, st)
      | Inr typeName \<Rightarrow>
          (case recordSource st rid of
             None \<Rightarrow> Inl (DanglingRecord rid, st)
           | Some r \<Rightarrow>
               if strict_eq (getType r) typeName then Inr st
               else Inr (warn (ConflictingTypes (getDataID r) (getType r) typeName) st)))"


text \<open>
  \<open>a || b || c\<close> for the next identity: the payload's \<open>id\<close>, the identity already stored,
  the generated client identity.  The result is a string unless the payload's \<open>id\<close> is a
  true value of another type.
\<close>

fun or_stored :: "dataID option \<Rightarrow> dataID \<Rightarrow> json" where
  "or_stored None c = JStr c"
| "or_stored (Some s) c = (if s \<noteq> [] then JStr s else JStr c)"

fun or_id :: "json option \<Rightarrow> dataID option \<Rightarrow> dataID \<Rightarrow> json" where
  "or_id None b c = or_stored b c"
| "or_id (Some v) b c = (if truthy v then v else or_stored b c)"

text \<open>\<open>prevIDs && prevIDs[nextIndex]\<close>.\<close>

fun prev_at :: "dataID option list option \<Rightarrow> nat \<Rightarrow> dataID option" where
  "prev_at None i = None"
| "prev_at (Some ids) i = (if i < length ids then ids ! i else None)"

text \<open>
  The record of the next identity: created with the field's type when the source has none,
  checked against it in a debug build otherwise (lines 442-449 and 497-504).
\<close>

definition lookupOrCreate :: "normalizer \<Rightarrow> node \<Rightarrow> dataID \<Rightarrow> json \<Rightarrow> nstate \<Rightarrow> result" where
  "lookupOrCreate env field nextID payload st =
     (case recordSource st nextID of
        None \<Rightarrow>
          (case concreteOrRecordType env field payload of
             Inl e \<Rightarrow> Inl (e, st)
           | Inr typeName \<Rightarrow>
               Inr (st\<lparr>recordSource := (recordSource st)(nextID \<mapsto> create nextID typeName)\<rparr>))
      | Some nextRecord \<Rightarrow>
          if dev env then validateRecordType env nextID field payload st else Inr st)"

text \<open>
  The head of \<open>_normalizeField\<close> and \<open>_normalizeMatchField\<close> (lines 365-392 and 290-317):
  the object test on the data, the two keys, and what a missing or null value does.
\<close>

datatype field_read = Done result | Value string string json

definition responseKey :: "field_info \<Rightarrow> string" where
  "responseKey f =
     (case f_alias f of
        None \<Rightarrow> f_name f
      | Some a \<Rightarrow> if a \<noteq> [] then a else f_name f)"

definition writeNull :: "normalizer \<Rightarrow> node \<Rightarrow> json \<Rightarrow> string \<Rightarrow> string \<Rightarrow> dataID \<Rightarrow> nstate \<Rightarrow> nstate" where
  "writeNull env parent data rk sk rid st =
     updateRecord rid (\<lambda>r. setValue r sk JNull)
       (if dev env \<and>
           \<not> (if is_linked_field parent \<and> concreteType parent = None then True
              else own_prop data rk \<noteq> None)
        then warn (PayloadMissingField rk sk) st else st)"

definition readField :: "normalizer \<Rightarrow> node \<Rightarrow> field_info \<Rightarrow> dataID \<Rightarrow> json \<Rightarrow> nstate \<Rightarrow> field_read" where
  "readField env parent f rid data st =
     (if \<not> is_object data then Done (Inl (ExpectedDataObject (f_name f), st))
      else
        (case get_prop data (responseKey f) of
           None \<Rightarrow>
             if \<not> handleStrippedNulls env then Done (Inr st)
             else Done (Inr (writeNull env parent data (responseKey f)
                               (getStorageKey env f (variables env)) rid st))
         | Some JNull \<Rightarrow>
             Done (Inr (writeNull env parent data (responseKey f)
                          (getStorageKey env f (variables env)) rid st))
         | Some fieldValue \<Rightarrow>
             Value (responseKey f) (getStorageKey env f (variables env)) fieldValue))"

definition handleField :: "normalizer \<Rightarrow> handle_info \<Rightarrow> dataID \<Rightarrow> nstate \<Rightarrow> result" where
  "handleField env h rid st =
     (case recordSource st rid of
        None \<Rightarrow> Inl (DanglingRecord rid, st)
      | Some r \<Rightarrow>
          Inr (st\<lparr>handleFieldPayloads := handleFieldPayloads st @
                 [\<lparr>hp_args = (case f_args (h_field h) of
                                None \<Rightarrow> []
                              | Some as \<Rightarrow> getArgumentValues env as (variables env)),
                   hp_dataID = getDataID r,
                   hp_fieldKey = getStorageKey env (h_field h) (variables env),
                   hp_handle = h_handle h,
                   hp_handleKey = getHandleStorageKey env h (variables env)\<rparr>]\<rparr>))"

text \<open>The two ends of \<open>_normalizeMatchField\<close> (lines 340-346 and 347-356).\<close>

definition lookupOrCreateMatch ::
  "normalizer \<Rightarrow> node \<Rightarrow> dataID \<Rightarrow> json \<Rightarrow> json \<Rightarrow> nstate \<Rightarrow> result" where
  "lookupOrCreateMatch env field nextID typeName payload st =
     (case recordSource st nextID of
        None \<Rightarrow> Inr (st\<lparr>recordSource := (recordSource st)(nextID \<mapsto> create nextID typeName)\<rparr>)
      | Some nextRecord \<Rightarrow>
          if dev env then validateRecordType env nextID field payload st else Inr st)"

definition pushMatchPayload :: "normalizer \<Rightarrow> dataID \<Rightarrow> json \<Rightarrow> json \<Rightarrow> nstate \<Rightarrow> nstate" where
  "pushMatchPayload env nextID fieldValue typeName st =
     (case get_prop fieldValue (MATCH_FRAGMENT_KEY env) of
        None \<Rightarrow> st
      | Some JNull \<Rightarrow> st
      | Some operationReference \<Rightarrow>
          st\<lparr>matchFieldPayloads := matchFieldPayloads st @
               [\<lparr>mp_operationReference = operationReference,
                 mp_dataID = nextID,
                 mp_data = fieldValue,
                 mp_typeName = typeName,
                 mp_variables = variables env\<rparr>]\<rparr>)"

text \<open>
  \<open>field.matchesByType[typeName]\<close>.  The table is an object whose own keys are the type
  names, and the lookup follows its prototype chain as every lookup does; an entry is
  shown by the name it holds.
\<close>

definition lookupMatch :: "(string \<times> string) list \<Rightarrow> string \<Rightarrow> json option" where
  "lookupMatch matchesByType key =
     get_prop (JObj (map (\<lambda>(ty, m). (ty, JStr m)) matchesByType)) key"

definition normalizeMatchField ::
  "normalizer \<Rightarrow> node \<Rightarrow> field_info \<Rightarrow> (string \<times> string) list \<Rightarrow> dataID \<Rightarrow> json \<Rightarrow> nstate \<Rightarrow> result" where
  "normalizeMatchField env parent f matchesByType rid data st =
     (case readField env parent f rid data st of
        Done res \<Rightarrow> res
      | Value rk storageKey fieldValue \<Rightarrow>
          if \<not> is_object fieldValue then Inl (ExpectedFieldObject storageKey, st)
          else
            (case getRecordType env fieldValue of
               Inl e \<Rightarrow> Inl (e, st)
             | Inr typeName \<Rightarrow>
                 (case to_key typeName of
                    None \<Rightarrow> Inl (NoPrimitiveValue typeName, st)
                  | Some key \<Rightarrow>
                      if lookupMatch matchesByType key = None \<or>
                         lookupMatch matchesByType key = Some JNull
                      then Inr (updateRecord rid (\<lambda>r. setValue r storageKey JNull) st)
                      else
                        (case recordSource st rid of
                           None \<Rightarrow> Inl (DanglingRecord rid, st)
                         | Some r \<Rightarrow>
                             (case or_id (get_prop fieldValue ''id'')
                                     (getLinkedRecordID r storageKey)
                                     (generateRelayClientID env (getDataID r) storageKey None) of
                                JStr nextID \<Rightarrow>
                                  (case lookupOrCreateMatch env (MatchField f matchesByType)
                                          nextID typeName fieldValue
                                          (updateRecord rid
                                             (\<lambda>r. setLinkedRecordID r storageKey nextID) st) of
                                     Inl e \<Rightarrow> Inl e
                                   | Inr st' \<Rightarrow>
                                       Inr (pushMatchPayload env nextID fieldValue typeName st'))
                              | other \<Rightarrow> Inl (ExpectedStringID storageKey, st))))))"

text \<open>\<open>defer.if === null || this._getVariableValue(defer.if)\<close>, and the same of a stream.\<close>

definition ifValue :: "normalizer \<Rightarrow> string option \<Rightarrow> error + json" where
  "ifValue env i =
     (case i of
        None \<Rightarrow> Inr (JBool True)
      | Some name \<Rightarrow> getVariableValue env name)"

definition incrementalPayload ::
  "normalizer \<Rightarrow> incremental_kind \<Rightarrow> string \<Rightarrow> node \<Rightarrow> relay_record \<Rightarrow> nstate \<Rightarrow> incremental_payload" where
  "incrementalPayload env k label nd r st =
     \<lparr>ip_kind = k, ip_label = label, ip_path = path st,
      ip_selector = \<lparr>sel_dataID = getDataID r, sel_node = nd, sel_variables = variables env\<rparr>\<rparr>"

text \<open>
  The walker.  \<open>forEachSelection\<close> is the loop of \<open>_traverseSelections\<close> and
  \<open>traverseSelection\<close> its body; \<open>forEachItem\<close> is the loop of \<open>_normalizePluralLink\<close>, with
  the index and the identities pushed so far.  \<open>_normalizeField\<close> is only called on a scalar
  or a linked field, \<open>_normalizeDefer\<close> on a defer and \<open>_normalizeStream\<close> on a stream,
  whose three fields the model passes.
\<close>

function (sequential)
    traverseSelections :: "normalizer \<Rightarrow> node \<Rightarrow> dataID \<Rightarrow> json \<Rightarrow> nstate \<Rightarrow> result"
and forEachSelection :: "normalizer \<Rightarrow> node \<Rightarrow> node list \<Rightarrow> dataID \<Rightarrow> json \<Rightarrow> nstate \<Rightarrow> result"
and traverseSelection :: "normalizer \<Rightarrow> node \<Rightarrow> node \<Rightarrow> dataID \<Rightarrow> json \<Rightarrow> nstate \<Rightarrow> result"
and normalizeDefer ::
      "normalizer \<Rightarrow> string option \<Rightarrow> string \<Rightarrow> node list \<Rightarrow> dataID \<Rightarrow> json \<Rightarrow> nstate \<Rightarrow> result"
and normalizeStream ::
      "normalizer \<Rightarrow> string option \<Rightarrow> string \<Rightarrow> node list \<Rightarrow> dataID \<Rightarrow> json \<Rightarrow> nstate \<Rightarrow> result"
and normalizeField :: "normalizer \<Rightarrow> node \<Rightarrow> node \<Rightarrow> dataID \<Rightarrow> json \<Rightarrow> nstate \<Rightarrow> result"
and normalizeLink :: "normalizer \<Rightarrow> node \<Rightarrow> dataID \<Rightarrow> string \<Rightarrow> json \<Rightarrow> nstate \<Rightarrow> result"
and normalizePluralLink :: "normalizer \<Rightarrow> node \<Rightarrow> dataID \<Rightarrow> string \<Rightarrow> json \<Rightarrow> nstate \<Rightarrow> result"
and forEachItem ::
      "normalizer \<Rightarrow> node \<Rightarrow> dataID \<Rightarrow> string \<Rightarrow> dataID option list option \<Rightarrow> json list \<Rightarrow> nat \<Rightarrow>
       dataID option list \<Rightarrow> nstate \<Rightarrow> (error \<times> nstate) + (dataID option list \<times> nstate)"
where
  "traverseSelections env (LinkedField f ct pl sels) rid data st =
     forEachSelection env (LinkedField f ct pl sels) sels rid data st"
| "traverseSelections env (Condition c pv sels) rid data st =
     forEachSelection env (Condition c pv sels) sels rid data st"
| "traverseSelections env (InlineFragment ty sels) rid data st =
     forEachSelection env (InlineFragment ty sels) sels rid data st"
| "traverseSelections env (Defer i l sels) rid data st =
     forEachSelection env (Defer i l sels) sels rid data st"
| "traverseSelections env (Stream i l sels) rid data st =
     forEachSelection env (Stream i l sels) sels rid data st"
| "traverseSelections env (Fragment sels) rid data st =
     forEachSelection env (Fragment sels) sels rid data st"
| "traverseSelections env (Operation k sels) rid data st =
     forEachSelection env (Operation k sels) sels rid data st"
| "traverseSelections env nd rid data st = Inl (NoSelections, st)"

| "forEachSelection env nd [] rid data st = Inr st"
| "forEachSelection env nd (selection # rest) rid data st =
     (case traverseSelection env nd selection rid data st of
        Inl e \<Rightarrow> Inl e
      | Inr st' \<Rightarrow> forEachSelection env nd rest rid data st')"

| "traverseSelection env nd (ScalarField f) rid data st =
     normalizeField env nd (ScalarField f) rid data st"
| "traverseSelection env nd (LinkedField f ct pl sels) rid data st =
     normalizeField env nd (LinkedField f ct pl sels) rid data st"
| "traverseSelection env nd (Condition c pv sels) rid data st =
     (case getVariableValue env c of
        Inl e \<Rightarrow> Inl (e, st)
      | Inr conditionValue \<Rightarrow>
          if conditionValue = JBool pv
          then traverseSelections env (Condition c pv sels) rid data st
          else Inr st)"
| "traverseSelection env nd (InlineFragment ty sels) rid data st =
     (case recordSource st rid of
        None \<Rightarrow> Inl (DanglingRecord rid, st)
      | Some r \<Rightarrow>
          if getType r = JStr ty
          then traverseSelections env (InlineFragment ty sels) rid data st
          else Inr st)"
| "traverseSelection env nd (LinkedHandle h) rid data st = handleField env h rid st"
| "traverseSelection env nd (ScalarHandle h) rid data st = handleField env h rid st"
| "traverseSelection env nd (MatchField f matchesByType) rid data st =
     normalizeMatchField env nd f matchesByType rid data st"
| "traverseSelection env nd (Defer i l sels) rid data st =
     normalizeDefer env i l sels rid data st"
| "traverseSelection env nd (Stream i l sels) rid data st =
     normalizeStream env i l sels rid data st"
| "traverseSelection env nd (Fragment sels) rid data st = Inl (UnexpectedKind, st)"
| "traverseSelection env nd (FragmentSpread n) rid data st = Inl (UnexpectedKind, st)"
| "traverseSelection env nd (Operation k sels) rid data st = Inl (UnexpectedKind, st)"

| "normalizeDefer env i l sels rid data st =
     (case ifValue env i of
        Inl e \<Rightarrow> Inl (e, st)
      | Inr isDeferred \<Rightarrow>
          if isDeferred = JBool False
          then traverseSelections env (Defer i l sels) rid data
                 (if dev env \<and> \<not> is_boolean isDeferred
                  then warn (DeferIfNotBoolean isDeferred) st else st)
          else
            (case recordSource st rid of
               None \<Rightarrow> Inl (DanglingRecord rid, st)
             | Some r \<Rightarrow>
                 Inr ((if dev env \<and> \<not> is_boolean isDeferred
                       then warn (DeferIfNotBoolean isDeferred) st else st)
                      \<lparr>incrementalPayloads := incrementalPayloads st @
                         [incrementalPayload env KDefer l (Defer i l sels) r st]\<rparr>)))"

| "normalizeStream env i l sels rid data st =
     (case traverseSelections env (Stream i l sels) rid data st of
        Inl e \<Rightarrow> Inl e
      | Inr st1 \<Rightarrow>
          (case ifValue env i of
             Inl e \<Rightarrow> Inl (e, st1)
           | Inr isStreamed \<Rightarrow>
               if isStreamed = JBool True
               then
                 (case recordSource st1 rid of
                    None \<Rightarrow> Inl (DanglingRecord rid, st1)
                  | Some r \<Rightarrow>
                      Inr (st1\<lparr>incrementalPayloads := incrementalPayloads st1 @
                             [incrementalPayload env KStream l (Stream i l sels) r st1]\<rparr>))
               else Inr (if dev env \<and> \<not> is_boolean isStreamed
                         then warn (StreamIfNotBoolean isStreamed) st1 else st1)))"

| "normalizeField env parent (ScalarField f) rid data st =
     (case readField env parent f rid data st of
        Done res \<Rightarrow> res
      | Value rk storageKey fieldValue \<Rightarrow>
          Inr (updateRecord rid (\<lambda>r. setValue r storageKey fieldValue) st))"
| "normalizeField env parent (LinkedField f ct pl sels) rid data st =
     (case readField env parent f rid data st of
        Done res \<Rightarrow> res
      | Value rk storageKey fieldValue \<Rightarrow>
          (case (if pl
                 then normalizePluralLink env (LinkedField f ct pl sels) rid storageKey fieldValue
                        (st\<lparr>path := path st @ [rk]\<rparr>)
                 else normalizeLink env (LinkedField f ct pl sels) rid storageKey fieldValue
                        (st\<lparr>path := path st @ [rk]\<rparr>)) of
             Inl e \<Rightarrow> Inl e
           | Inr st' \<Rightarrow> Inr (st'\<lparr>path := butlast (path st')\<rparr>)))"
| "normalizeField env parent selection rid data st = Inl (UnexpectedKind, st)"

| "normalizeLink env field rid storageKey fieldValue st =
     (if \<not> is_object fieldValue then Inl (ExpectedFieldObject storageKey, st)
      else
        (case recordSource st rid of
           None \<Rightarrow> Inl (DanglingRecord rid, st)
         | Some r \<Rightarrow>
             (case or_id (get_prop fieldValue ''id'')
                     (getLinkedRecordID r storageKey)
                     (generateRelayClientID env (getDataID r) storageKey None) of
                JStr nextID \<Rightarrow>
                  (case lookupOrCreate env field nextID fieldValue
                          (updateRecord rid (\<lambda>r. setLinkedRecordID r storageKey nextID) st) of
                     Inl e \<Rightarrow> Inl e
                   | Inr st' \<Rightarrow> traverseSelections env field nextID fieldValue st')
              | other \<Rightarrow> Inl (ExpectedStringID storageKey, st))))"

| "normalizePluralLink env field rid storageKey fieldValue st =
     (case as_array fieldValue of
        None \<Rightarrow> Inl (ExpectedArray storageKey, st)
      | Some items \<Rightarrow>
          (case recordSource st rid of
             None \<Rightarrow> Inl (DanglingRecord rid, st)
           | Some r \<Rightarrow>
               (case forEachItem env field rid storageKey (getLinkedRecordIDs r storageKey)
                       items 0 [] st of
                  Inl e \<Rightarrow> Inl e
                | Inr (nextIDs, st') \<Rightarrow>
                    Inr (updateRecord rid (\<lambda>r. setLinkedRecordIDs r storageKey nextIDs) st'))))"

| "forEachItem env field rid storageKey prevIDs [] nextIndex nextIDs st = Inr (nextIDs, st)"
| "forEachItem env field rid storageKey prevIDs (item # rest) nextIndex nextIDs st =
     (if item = JNull
      then forEachItem env field rid storageKey prevIDs rest (Suc nextIndex) (nextIDs @ [None]) st
      else if \<not> is_object item
      then Inl (ExpectedElementObject storageKey, st\<lparr>path := path st @ [string_of_nat nextIndex]\<rparr>)
      else
        (case recordSource st rid of
           None \<Rightarrow> Inl (DanglingRecord rid, st\<lparr>path := path st @ [string_of_nat nextIndex]\<rparr>)
         | Some r \<Rightarrow>
             (case or_id (get_prop item ''id'')
                     (prev_at prevIDs nextIndex)
                     (generateRelayClientID env (getDataID r) storageKey (Some nextIndex)) of
                JStr nextID \<Rightarrow>
                  (case lookupOrCreate env field nextID item
                          (st\<lparr>path := path st @ [string_of_nat nextIndex]\<rparr>) of
                     Inl e \<Rightarrow> Inl e
                   | Inr st1 \<Rightarrow>
                       (case traverseSelections env field nextID item st1 of
                          Inl e \<Rightarrow> Inl e
                        | Inr st2 \<Rightarrow>
                            forEachItem env field rid storageKey prevIDs rest (Suc nextIndex)
                              (nextIDs @ [Some nextID]) (st2\<lparr>path := butlast (path st2)\<rparr>)))
              | other \<Rightarrow>
                  Inl (ExpectedStringElementID storageKey,
                       st\<lparr>path := path st @ [string_of_nat nextIndex]\<rparr>))))"
  by pat_completeness auto


termination
  apply (relation "inv_image (less_than <*lex*> less_than <*lex*> less_than)
    (\<lambda>x. case x of
       Inl (Inl (Inl (env, nd, rid, data, st))) \<Rightarrow> (size nd, 0::nat, 0::nat)
     | Inl (Inl (Inr (env, nd, sels, rid, data, st))) \<Rightarrow> (size_list size sels, 1, 0)
     | Inl (Inr (Inl (env, nd, sel, rid, data, st))) \<Rightarrow> (size sel, 9, 0)
     | Inl (Inr (Inr (env, i, l, sels, rid, data, st))) \<Rightarrow> (size (Defer i l sels), 5, 0)
     | Inr (Inl (Inl (env, i, l, sels, rid, data, st))) \<Rightarrow> (size (Stream i l sels), 5, 0)
     | Inr (Inl (Inr (env, parent, sel, rid, data, st))) \<Rightarrow> (size sel, 8, 0)
     | Inr (Inr (Inl (env, field, rid, sk, fv, st))) \<Rightarrow> (size field, 7, 0)
     | Inr (Inr (Inr (Inl (env, field, rid, sk, fv, st)))) \<Rightarrow> (size field, 7, 0)
     | Inr (Inr (Inr (Inr (env, field, rid, sk, prev, items, idx, ids, st)))) \<Rightarrow>
         (size field, 6, length items))")
    apply (rule wf_inv_image)
    apply (intro wf_lex_prod wf_less_than)
   apply simp_all
  done


text \<open>
  \<open>normalize\<close> builds the normalizer from the selector's variables and the option (absent:
  \<open>handleStrippedNulls\<close> is false) and runs it on the given record source.  The caller gets
  the three payload lists of the final state; the record source is changed in place.
\<close>

definition normalizeResponse :: "normalizer \<Rightarrow> node \<Rightarrow> dataID \<Rightarrow> json \<Rightarrow> nstate \<Rightarrow> result" where
  "normalizeResponse env nd dataID data st =
     (case recordSource st dataID of
        None \<Rightarrow> Inl (MissingRoot dataID, st)
      | Some record \<Rightarrow> traverseSelections env nd dataID data st)"

definition newNormalizer :: "normalizer \<Rightarrow> variables \<Rightarrow> bool option \<Rightarrow> normalizer" where
  "newNormalizer ext vars options =
     ext\<lparr>variables := vars,
         handleStrippedNulls := (case options of None \<Rightarrow> False | Some b \<Rightarrow> b)\<rparr>"

definition newState :: "(dataID \<Rightarrow> relay_record option) \<Rightarrow> nstate" where
  "newState source =
     \<lparr>recordSource = source, incrementalPayloads = [], handleFieldPayloads = [],
      matchFieldPayloads = [], path = [], warnings = []\<rparr>"

definition normalize ::
  "normalizer \<Rightarrow> (dataID \<Rightarrow> relay_record option) \<Rightarrow> selector \<Rightarrow> json \<Rightarrow> bool option \<Rightarrow> result" where
  "normalize ext source sel response options =
     normalizeResponse (newNormalizer ext (sel_variables sel) options)
       (sel_node sel) (sel_dataID sel) response (newState source)"

section \<open>Observations and invariants\<close>

text \<open>What a result holds at a storage key of a record; nothing after a failure.\<close>

definition stored :: "result \<Rightarrow> dataID \<Rightarrow> string \<Rightarrow> field_value option" where
  "stored res rid k =
     (case res of
        Inl e \<Rightarrow> None
      | Inr st \<Rightarrow> (case recordSource st rid of None \<Rightarrow> None | Some r \<Rightarrow> getValue r k))"

text \<open>
  Every record of the first state is still there in the second, with the identity and
  the type it had.
\<close>

definition preserved :: "nstate \<Rightarrow> nstate \<Rightarrow> bool" where
  "preserved st st' \<longleftrightarrow>
     (\<forall>x r. recordSource st x = Some r \<longrightarrow>
        (\<exists>r'. recordSource st' x = Some r' \<and> rec_id r' = rec_id r \<and> rec_type r' = rec_type r))"

text \<open>
  What every function of the walker keeps: the records, whether it fails or not, and the
  path when it returns.
\<close>

definition ok_result :: "nstate \<Rightarrow> result \<Rightarrow> bool" where
  "ok_result st res =
     (case res of
        Inl (e, st') \<Rightarrow> preserved st st'
      | Inr st' \<Rightarrow> preserved st st' \<and> path st' = path st)"

definition ok_items ::
  "nstate \<Rightarrow> (error \<times> nstate) + (dataID option list \<times> nstate) \<Rightarrow> bool" where
  "ok_items st res =
     (case res of
        Inl (e, st') \<Rightarrow> preserved st st'
      | Inr (ids, st') \<Rightarrow> preserved st st' \<and> path st' = path st)"

text \<open>A condition, defer or stream whose guard names the variable \<open>v\<close>.\<close>

definition guarded_by :: "string \<Rightarrow> node \<Rightarrow> bool" where
  "guarded_by v sel =
     (case sel of
        Condition c pv sels \<Rightarrow> c = v
      | Defer i l sels \<Rightarrow> i = Some v
      | Stream i l sels \<Rightarrow> i = Some v
      | _ \<Rightarrow> False)"

text \<open>The linked identity and the list of linked identities a result holds.\<close>

definition storedLink :: "result \<Rightarrow> dataID \<Rightarrow> string \<Rightarrow> dataID option" where
  "storedLink res rid k =
     (case res of
        Inl e \<Rightarrow> None
      | Inr st \<Rightarrow>
          (case recordSource st rid of None \<Rightarrow> None | Some r \<Rightarrow> getLinkedRecordID r k))"

definition storedLinks :: "result \<Rightarrow> dataID \<Rightarrow> string \<Rightarrow> dataID option list option" where
  "storedLinks res rid k =
     (case res of
        Inl e \<Rightarrow> None
      | Inr st \<Rightarrow>
          (case recordSource st rid of None \<Rightarrow> None | Some r \<Rightarrow> getLinkedRecordIDs r k))"

text \<open>A payload whose \<open>id\<close> is absent or is a value that \<open>||\<close> passes over.\<close>

definition no_id :: "json \<Rightarrow> bool" where
  "no_id v = (case get_prop v ''id'' of None \<Rightarrow> True | Some i \<Rightarrow> \<not> truthy i)"

text \<open>
  The entry of the identity list for the item at index \<open>i\<close> of a plural field of the
  record \<open>owner\<close>, whose list of identities was \<open>prev\<close>.
\<close>

definition itemID ::
  "normalizer \<Rightarrow> dataID \<Rightarrow> string \<Rightarrow> dataID option list option \<Rightarrow> nat \<Rightarrow> json \<Rightarrow> dataID option" where
  "itemID env owner sk prev i item =
     (if item = JNull then None
      else (case or_id (get_prop item ''id'') (prev_at prev i)
                   (generateRelayClientID env owner sk (Some i)) of
              JStr n \<Rightarrow> Some n
            | _ \<Rightarrow> None))"

text \<open>
  What \<open>_normalizeLink\<close> does with the next identity \<open>n\<close> (lines 441-450): it writes \<open>n\<close>
  at the owner's storage key, finds or creates the record of \<open>n\<close>, and traverses the
  field's selections on it.
\<close>

definition linkTo ::
  "normalizer \<Rightarrow> node \<Rightarrow> dataID \<Rightarrow> string \<Rightarrow> json \<Rightarrow> dataID \<Rightarrow> nstate \<Rightarrow> result" where
  "linkTo env fld rid sk fv n st =
     (case lookupOrCreate env fld n fv (updateRecord rid (\<lambda>r. setLinkedRecordID r sk n) st) of
        Inl e \<Rightarrow> Inl e
      | Inr st' \<Rightarrow> traverseSelections env fld n fv st')"

text \<open>
  Normalizing twice.  An object without a server identity (its \<open>id\<close> is absent or a value
  that \<open>||\<close> passes over) gets the identity that is stored at the owner's storage key, or a
  client identity.  A resolution is the owner, the storage key, the index of the item in a
  plural field, and the identity that such an object was given.  The functions below run
  along the walker and list the resolutions of one call, in the order they are made: each
  follows the function of the walker it is named after, on the same states, and a function
  that the walker abandons with an error lists what was resolved until then.
\<close>

type_synonym resolution = "dataID \<times> string \<times> nat option \<times> dataID"

definition resolution :: "dataID \<Rightarrow> string \<Rightarrow> nat option \<Rightarrow> json \<Rightarrow> dataID \<Rightarrow> resolution list" where
  "resolution owner storageKey idx payload nextID =
     (if no_id payload then [(owner, storageKey, idx, nextID)] else [])"

definition resolvedByMatchField ::
  "normalizer \<Rightarrow> node \<Rightarrow> field_info \<Rightarrow> (string \<times> string) list \<Rightarrow> dataID \<Rightarrow> json \<Rightarrow> nstate \<Rightarrow>
   resolution list" where
  "resolvedByMatchField env parent f matchesByType rid data st =
     (case readField env parent f rid data st of
        Done res \<Rightarrow> []
      | Value rk storageKey fieldValue \<Rightarrow>
          if \<not> is_object fieldValue then []
          else
            (case getRecordType env fieldValue of
               Inl e \<Rightarrow> []
             | Inr typeName \<Rightarrow>
                 (case to_key typeName of
                    None \<Rightarrow> []
                  | Some key \<Rightarrow>
                      if lookupMatch matchesByType key = None \<or>
                         lookupMatch matchesByType key = Some JNull
                      then []
                      else
                        (case recordSource st rid of
                           None \<Rightarrow> []
                         | Some r \<Rightarrow>
                             (case or_id (get_prop fieldValue ''id'')
                                     (getLinkedRecordID r storageKey)
                                     (generateRelayClientID env (getDataID r) storageKey None) of
                                JStr nextID \<Rightarrow> resolution rid storageKey None fieldValue nextID
                              | other \<Rightarrow> [])))))"

function (sequential)
    resolvedBySelections :: "normalizer \<Rightarrow> node \<Rightarrow> dataID \<Rightarrow> json \<Rightarrow> nstate \<Rightarrow> resolution list"
and resolvedByEachSelection ::
      "normalizer \<Rightarrow> node \<Rightarrow> node list \<Rightarrow> dataID \<Rightarrow> json \<Rightarrow> nstate \<Rightarrow> resolution list"
and resolvedBySelection ::
      "normalizer \<Rightarrow> node \<Rightarrow> node \<Rightarrow> dataID \<Rightarrow> json \<Rightarrow> nstate \<Rightarrow> resolution list"
and resolvedByDefer ::
      "normalizer \<Rightarrow> string option \<Rightarrow> string \<Rightarrow> node list \<Rightarrow> dataID \<Rightarrow> json \<Rightarrow> nstate \<Rightarrow>
       resolution list"
and resolvedByStream ::
      "normalizer \<Rightarrow> string option \<Rightarrow> string \<Rightarrow> node list \<Rightarrow> dataID \<Rightarrow> json \<Rightarrow> nstate \<Rightarrow>
       resolution list"
and resolvedByField :: "normalizer \<Rightarrow> node \<Rightarrow> node \<Rightarrow> dataID \<Rightarrow> json \<Rightarrow> nstate \<Rightarrow> resolution list"
and resolvedByLink :: "normalizer \<Rightarrow> node \<Rightarrow> dataID \<Rightarrow> string \<Rightarrow> json \<Rightarrow> nstate \<Rightarrow> resolution list"
and resolvedByPluralLink ::
      "normalizer \<Rightarrow> node \<Rightarrow> dataID \<Rightarrow> string \<Rightarrow> json \<Rightarrow> nstate \<Rightarrow> resolution list"
and resolvedByEachItem ::
      "normalizer \<Rightarrow> node \<Rightarrow> dataID \<Rightarrow> string \<Rightarrow> dataID option list option \<Rightarrow> json list \<Rightarrow> nat \<Rightarrow>
       dataID option list \<Rightarrow> nstate \<Rightarrow> resolution list"
where
  "resolvedBySelections env (LinkedField f ct pl sels) rid data st =
     resolvedByEachSelection env (LinkedField f ct pl sels) sels rid data st"
| "resolvedBySelections env (Condition c pv sels) rid data st =
     resolvedByEachSelection env (Condition c pv sels) sels rid data st"
| "resolvedBySelections env (InlineFragment ty sels) rid data st =
     resolvedByEachSelection env (InlineFragment ty sels) sels rid data st"
| "resolvedBySelections env (Defer i l sels) rid data st =
     resolvedByEachSelection env (Defer i l sels) sels rid data st"
| "resolvedBySelections env (Stream i l sels) rid data st =
     resolvedByEachSelection env (Stream i l sels) sels rid data st"
| "resolvedBySelections env (Fragment sels) rid data st =
     resolvedByEachSelection env (Fragment sels) sels rid data st"
| "resolvedBySelections env (Operation k sels) rid data st =
     resolvedByEachSelection env (Operation k sels) sels rid data st"
| "resolvedBySelections env nd rid data st = []"

| "resolvedByEachSelection env nd [] rid data st = []"
| "resolvedByEachSelection env nd (selection # rest) rid data st =
     resolvedBySelection env nd selection rid data st @
     (case traverseSelection env nd selection rid data st of
        Inl e \<Rightarrow> []
      | Inr st' \<Rightarrow> resolvedByEachSelection env nd rest rid data st')"

| "resolvedBySelection env nd (ScalarField f) rid data st =
     resolvedByField env nd (ScalarField f) rid data st"
| "resolvedBySelection env nd (LinkedField f ct pl sels) rid data st =
     resolvedByField env nd (LinkedField f ct pl sels) rid data st"
| "resolvedBySelection env nd (Condition c pv sels) rid data st =
     (case getVariableValue env c of
        Inl e \<Rightarrow> []
      | Inr conditionValue \<Rightarrow>
          if conditionValue = JBool pv
          then resolvedBySelections env (Condition c pv sels) rid data st
          else [])"
| "resolvedBySelection env nd (InlineFragment ty sels) rid data st =
     (case recordSource st rid of
        None \<Rightarrow> []
      | Some r \<Rightarrow>
          if getType r = JStr ty
          then resolvedBySelections env (InlineFragment ty sels) rid data st
          else [])"
| "resolvedBySelection env nd (LinkedHandle h) rid data st = []"
| "resolvedBySelection env nd (ScalarHandle h) rid data st = []"
| "resolvedBySelection env nd (MatchField f matchesByType) rid data st =
     resolvedByMatchField env nd f matchesByType rid data st"
| "resolvedBySelection env nd (Defer i l sels) rid data st =
     resolvedByDefer env i l sels rid data st"
| "resolvedBySelection env nd (Stream i l sels) rid data st =
     resolvedByStream env i l sels rid data st"
| "resolvedBySelection env nd (Fragment sels) rid data st = []"
| "resolvedBySelection env nd (FragmentSpread n) rid data st = []"
| "resolvedBySelection env nd (Operation k sels) rid data st = []"

| "resolvedByDefer env i l sels rid data st =
     (case ifValue env i of
        Inl e \<Rightarrow> []
      | Inr isDeferred \<Rightarrow>
          if isDeferred = JBool False
          then resolvedBySelections env (Defer i l sels) rid data
                 (if dev env \<and> \<not> is_boolean isDeferred
                  then warn (DeferIfNotBoolean isDeferred) st else st)
          else [])"

| "resolvedByStream env i l sels rid data st =
     resolvedBySelections env (Stream i l sels) rid data st"

| "resolvedByField env parent (ScalarField f) rid data st = []"
| "resolvedByField env parent (LinkedField f ct pl sels) rid data st =
     (case readField env parent f rid data st of
        Done res \<Rightarrow> []
      | Value rk storageKey fieldValue \<Rightarrow>
          if pl
          then resolvedByPluralLink env (LinkedField f ct pl sels) rid storageKey fieldValue
                 (st\<lparr>path := path st @ [rk]\<rparr>)
          else resolvedByLink env (LinkedField f ct pl sels) rid storageKey fieldValue
                 (st\<lparr>path := path st @ [rk]\<rparr>))"
| "resolvedByField env parent selection rid data st = []"

| "resolvedByLink env field rid storageKey fieldValue st =
     (if \<not> is_object fieldValue then []
      else
        (case recordSource st rid of
           None \<Rightarrow> []
         | Some r \<Rightarrow>
             (case or_id (get_prop fieldValue ''id'')
                     (getLinkedRecordID r storageKey)
                     (generateRelayClientID env (getDataID r) storageKey None) of
                JStr nextID \<Rightarrow>
                  resolution rid storageKey None fieldValue nextID @
                  (case lookupOrCreate env field nextID fieldValue
                          (updateRecord rid (\<lambda>r. setLinkedRecordID r storageKey nextID) st) of
                     Inl e \<Rightarrow> []
                   | Inr st' \<Rightarrow> resolvedBySelections env field nextID fieldValue st')
              | other \<Rightarrow> [])))"

| "resolvedByPluralLink env field rid storageKey fieldValue st =
     (case as_array fieldValue of
        None \<Rightarrow> []
      | Some items \<Rightarrow>
          (case recordSource st rid of
             None \<Rightarrow> []
           | Some r \<Rightarrow>
               resolvedByEachItem env field rid storageKey (getLinkedRecordIDs r storageKey)
                 items 0 [] st))"

| "resolvedByEachItem env field rid storageKey prevIDs [] nextIndex nextIDs st = []"
| "resolvedByEachItem env field rid storageKey prevIDs (item # rest) nextIndex nextIDs st =
     (if item = JNull
      then resolvedByEachItem env field rid storageKey prevIDs rest (Suc nextIndex)
             (nextIDs @ [None]) st
      else if \<not> is_object item then []
      else
        (case recordSource st rid of
           None \<Rightarrow> []
         | Some r \<Rightarrow>
             (case or_id (get_prop item ''id'')
                     (prev_at prevIDs nextIndex)
                     (generateRelayClientID env (getDataID r) storageKey (Some nextIndex)) of
                JStr nextID \<Rightarrow>
                  resolution rid storageKey (Some nextIndex) item nextID @
                  (case lookupOrCreate env field nextID item
                          (st\<lparr>path := path st @ [string_of_nat nextIndex]\<rparr>) of
                     Inl e \<Rightarrow> []
                   | Inr st1 \<Rightarrow>
                       resolvedBySelections env field nextID item st1 @
                       (case traverseSelections env field nextID item st1 of
                          Inl e \<Rightarrow> []
                        | Inr st2 \<Rightarrow>
                            resolvedByEachItem env field rid storageKey prevIDs rest
                              (Suc nextIndex) (nextIDs @ [Some nextID])
                              (st2\<lparr>path := butlast (path st2)\<rparr>)))
              | other \<Rightarrow> [])))"
  by pat_completeness auto

termination
  apply (relation "inv_image (less_than <*lex*> less_than <*lex*> less_than)
    (\<lambda>x. case x of
       Inl (Inl (Inl (env, nd, rid, data, st))) \<Rightarrow> (size nd, 0::nat, 0::nat)
     | Inl (Inl (Inr (env, nd, sels, rid, data, st))) \<Rightarrow> (size_list size sels, 1, 0)
     | Inl (Inr (Inl (env, nd, sel, rid, data, st))) \<Rightarrow> (size sel, 9, 0)
     | Inl (Inr (Inr (env, i, l, sels, rid, data, st))) \<Rightarrow> (size (Defer i l sels), 5, 0)
     | Inr (Inl (Inl (env, i, l, sels, rid, data, st))) \<Rightarrow> (size (Stream i l sels), 5, 0)
     | Inr (Inl (Inr (env, parent, sel, rid, data, st))) \<Rightarrow> (size sel, 8, 0)
     | Inr (Inr (Inl (env, field, rid, sk, fv, st))) \<Rightarrow> (size field, 7, 0)
     | Inr (Inr (Inr (Inl (env, field, rid, sk, fv, st)))) \<Rightarrow> (size field, 7, 0)
     | Inr (Inr (Inr (Inr (env, field, rid, sk, prev, items, idx, ids, st)))) \<Rightarrow>
         (size field, 6, length items))")
    apply (rule wf_inv_image)
    apply (intro wf_lex_prod wf_less_than)
   apply simp_all
  done

text \<open>The resolutions of a call of \<open>normalize\<close>.\<close>

definition resolvedBy ::
  "normalizer \<Rightarrow> (dataID \<Rightarrow> relay_record option) \<Rightarrow> selector \<Rightarrow> json \<Rightarrow> bool option \<Rightarrow>
   resolution list" where
  "resolvedBy ext source sel response options =
     resolvedBySelections (newNormalizer ext (sel_variables sel) options)
       (sel_node sel) (sel_dataID sel) response (newState source)"

text \<open>
  A record source still holds a resolution when the owner's storage key links to the
  resolved identity, at the index for an item of a plural field.
\<close>

definition held :: "(dataID \<Rightarrow> relay_record option) \<Rightarrow> resolution \<Rightarrow> bool" where
  "held F x =
     (case x of (owner, storageKey, idx, nextID) \<Rightarrow>
        (case F owner of
           None \<Rightarrow> False
         | Some r \<Rightarrow>
             (case idx of
                None \<Rightarrow> getLinkedRecordID r storageKey = Some nextID
              | Some i \<Rightarrow> prev_at (getLinkedRecordIDs r storageKey) i = Some nextID)))"

text \<open>
  The second call runs on the record source \<open>F\<close> that the first one left.  \<open>within F st\<close>:
  the records of a state of the first call are records of \<open>F\<close>, with their identities and
  types.  \<open>sim F s t\<close> relates the states of the two calls at the same point: the path and
  the payload lists are equal, the second call has the records of \<open>F\<close> with their
  identities and types, and each field of a record holds what it holds in \<open>F\<close> or what
  it holds in the first call.
\<close>

definition within :: "(dataID \<Rightarrow> relay_record option) \<Rightarrow> nstate \<Rightarrow> bool" where
  "within F st \<longleftrightarrow>
     (\<forall>x r. recordSource st x = Some r \<longrightarrow>
        (\<exists>rF. F x = Some rF \<and> rec_id rF = rec_id r \<and> rec_type rF = rec_type r))"

definition sim :: "(dataID \<Rightarrow> relay_record option) \<Rightarrow> nstate \<Rightarrow> nstate \<Rightarrow> bool" where
  "sim F s t \<longleftrightarrow>
     path t = path s \<and>
     incrementalPayloads t = incrementalPayloads s \<and>
     handleFieldPayloads t = handleFieldPayloads s \<and>
     matchFieldPayloads t = matchFieldPayloads s \<and>
     (\<forall>x. (recordSource t x = None) = (F x = None)) \<and>
     (\<forall>x rt. recordSource t x = Some rt \<longrightarrow>
        (\<exists>rF. F x = Some rF \<and> rec_id rt = rec_id rF \<and> rec_type rt = rec_type rF \<and>
           (\<forall>k. rec_fields rt k = rec_fields rF k \<or>
                (\<exists>rs. recordSource s x = Some rs \<and> rec_fields rt k = rec_fields rs k))))"

text \<open>
  \<open>replays F rs rt\<close>: when the first call returns in a state within \<open>F\<close>, the second call
  returns too, in a related state.
\<close>

definition replays :: "(dataID \<Rightarrow> relay_record option) \<Rightarrow> result \<Rightarrow> result \<Rightarrow> bool" where
  "replays F rs rt \<longleftrightarrow>
     (\<forall>s'. rs = Inr s' \<longrightarrow> within F s' \<longrightarrow> (\<exists>t'. rt = Inr t' \<and> sim F s' t'))"

definition replays_items ::
  "(dataID \<Rightarrow> relay_record option) \<Rightarrow> (error \<times> nstate) + (dataID option list \<times> nstate) \<Rightarrow>
   (error \<times> nstate) + (dataID option list \<times> nstate) \<Rightarrow> bool" where
  "replays_items F rs rt \<longleftrightarrow>
     (\<forall>ids s'. rs = Inr (ids, s') \<longrightarrow> within F s' \<longrightarrow> (\<exists>t'. rt = Inr (ids, t') \<and> sim F s' t'))"

text \<open>The second call of \<open>normalize\<close>, on the record source that the first one left.\<close>

definition renormalize ::
  "normalizer \<Rightarrow> (dataID \<Rightarrow> relay_record option) \<Rightarrow> selector \<Rightarrow> json \<Rightarrow> bool option \<Rightarrow> result" where
  "renormalize ext source sel response options =
     (case normalize ext source sel response options of
        Inl e \<Rightarrow> Inl e
      | Inr s1 \<Rightarrow> normalize ext (recordSource s1) sel response options)"


section \<open>Fixtures\<close>

text \<open>
  A normalizer whose storage key is the field's name and whose client identities are
  \<open>client:<owner>:<key>\<close> and \<open>client:<owner>:<key>:<index>\<close>, a record source with one root
  record, and fields to run the walker on.
\<close>

definition clientID :: "dataID \<Rightarrow> string \<Rightarrow> nat option \<Rightarrow> dataID" where
  "clientID i k n =
     ''client:'' @ i @ CHR '':'' # k @
       (case n of None \<Rightarrow> [] | Some j \<Rightarrow> CHR '':'' # string_of_nat j)"

definition testEnv :: normalizer where
  "testEnv =
     \<lparr>variables = [(''on'', JBool True), (''off'', JBool False)],
      handleStrippedNulls = False,
      dev = True,
      getStorageKey = (\<lambda>f vs. f_name f),
      getHandleStorageKey = (\<lambda>h vs. ''__'' @ f_name (h_field h) @ CHR ''_'' # h_handle h),
      getArgumentValues = (\<lambda>as vs. []),
      generateRelayClientID = clientID,
      TYPENAME_KEY = ''__typename'',
      MATCH_FRAGMENT_KEY = ''__match_fragment''\<rparr>"

definition field :: "string \<Rightarrow> field_info" where
  "field n = \<lparr>f_alias = None, f_name = n, f_args = None, f_storageKey = None\<rparr>"

definition rootRecord :: relay_record where
  "rootRecord = create ''root'' (JStr ''Query'')"

definition rootSource :: "dataID \<Rightarrow> relay_record option" where
  "rootSource = [''root'' \<mapsto> rootRecord]"

definition friends :: node where
  "friends = LinkedField (field ''friends'') (Some ''User'') True []"


definition linkF :: node where
  "linkF = LinkedField (field ''f'') (Some ''T'') False []"

definition linkedSource :: "dataID \<Rightarrow> relay_record option" where
  "linkedSource = [''root'' \<mapsto> setLinkedRecordID rootRecord ''f'' ''old'']"

definition userSource :: "dataID \<Rightarrow> relay_record option" where
  "userSource = [''root'' \<mapsto> rootRecord, ''1'' \<mapsto> create ''1'' (JStr ''User'')]"

definition pageF :: node where
  "pageF = LinkedField (field ''page'') (Some ''Page'') False []"

definition aliasSelector :: selector where
  "aliasSelector =
     \<lparr>sel_dataID = ''root'',
      sel_node = Operation ''Operation''
        [LinkedField \<lparr>f_alias = Some ''a'', f_name = ''f'', f_args = None, f_storageKey = None\<rparr>
           (Some ''T'') False [ScalarField (field ''x'')],
         LinkedField \<lparr>f_alias = Some ''b'', f_name = ''f'', f_args = None, f_storageKey = None\<rparr>
           (Some ''T'') False [ScalarField (field ''y'')]],
      sel_variables = []\<rparr>"

definition aliasResponse :: json where
  "aliasResponse =
     JObj [(''a'', JObj [(''x'', JNum 1)]), (''b'', JObj [(''id'', JStr ''S''), (''y'', JNum 2)])]"

text \<open>
  A selector and a response in which two objects have no \<open>id\<close> (the third friend and
  the page), and the record source that normalizing them leaves.
\<close>

definition mixedSelector :: selector where
  "mixedSelector =
     \<lparr>sel_dataID = ''root'',
      sel_node = Operation ''Operation''
        [LinkedField (field ''friends'') (Some ''User'') True [ScalarField (field ''name'')],
         LinkedField (field ''page'') (Some ''Page'') False [ScalarField (field ''title'')]],
      sel_variables = []\<rparr>"

definition mixedResponse :: json where
  "mixedResponse =
     JObj [(''friends'', JArr [JObj [(''id'', JStr ''a''), (''name'', JStr ''A'')], JNull,
                              JObj [(''name'', JStr ''B'')]]),
           (''page'', JObj [(''title'', JStr ''x'')])]"

definition mixedSource :: "dataID \<Rightarrow> relay_record option" where
  "mixedSource =
     [''root'' \<mapsto>
        setLinkedRecordID
          (setLinkedRecordIDs rootRecord ''friends''
             [Some ''a'', None, Some ''client:root:friends:2''])
          ''page'' ''client:root:page'',
      ''a'' \<mapsto> setValue (create ''a'' (JStr ''User'')) ''name'' (JStr ''A''),
      ''client:root:friends:2'' \<mapsto>
        setValue (create ''client:root:friends:2'' (JStr ''User'')) ''name'' (JStr ''B''),
      ''client:root:page'' \<mapsto>
        setValue (create ''client:root:page'' (JStr ''Page'')) ''title'' (JStr ''x'')]"




section \<open>The walker keeps records, identities, types and the path\<close>

lemma preserved_refl [simp]: "preserved st st"
  by (simp add: preserved_def)

lemma preserved_trans: "preserved a b \<Longrightarrow> preserved b c \<Longrightarrow> preserved a c"
  unfolding preserved_def by (metis)

lemma preserved_same: "recordSource st' = recordSource st \<Longrightarrow> preserved st st'"
  by (simp add: preserved_def)

lemma preserved_updateRecord:
  assumes "\<And>r. rec_id (f r) = rec_id r" "\<And>r. rec_type (f r) = rec_type r"
  shows "preserved st (updateRecord rid f st)"
  using assms by (auto simp: preserved_def updateRecord_def split: option.splits)

lemma path_updateRecord [simp]: "path (updateRecord rid f st) = path st"
  by (simp add: updateRecord_def split: option.splits)

lemma preserved_create:
  "recordSource st x = None \<Longrightarrow>
   preserved st (st\<lparr>recordSource := (recordSource st)(x \<mapsto> r)\<rparr>)"
  by (auto simp: preserved_def)

lemma ok_Inr: "preserved st st' \<Longrightarrow> path st' = path st \<Longrightarrow> ok_result st (Inr st')"
  by (simp add: ok_result_def)

lemma ok_Inl: "preserved st st' \<Longrightarrow> ok_result st (Inl (e, st'))"
  by (simp add: ok_result_def)

lemma ok_bind:
  assumes "ok_result st r" "\<And>st'. r = Inr st' \<Longrightarrow> ok_result st' (k st')"
  shows "ok_result st (case r of Inl e \<Rightarrow> Inl e | Inr st' \<Rightarrow> k st')"
  using assms
  by (auto simp: ok_result_def split: sum.splits prod.splits intro: preserved_trans)

lemma ok_shift:
  assumes "preserved st st1" "path st1 = path st" "ok_result st1 r"
  shows "ok_result st r"
  using assms by (auto simp: ok_result_def split: sum.splits prod.splits intro: preserved_trans)

lemma ok_validateRecordType: "ok_result st (validateRecordType env rid fld payload st)"
  by (auto simp: validateRecordType_def ok_result_def warn_def preserved_same
      split: sum.splits option.splits)

lemma ok_lookupOrCreate: "ok_result st (lookupOrCreate env fld n payload st)"
proof (cases "recordSource st n")
  case None
  then show ?thesis
    by (auto simp: lookupOrCreate_def ok_result_def preserved_create split: sum.splits)
next
  case (Some nr)
  then show ?thesis
    using ok_validateRecordType [of st env n fld payload]
    by (simp add: lookupOrCreate_def ok_result_def)
qed

lemma ok_lookupOrCreateMatch: "ok_result st (lookupOrCreateMatch env fld n t payload st)"
proof (cases "recordSource st n")
  case None
  then show ?thesis
    by (auto simp: lookupOrCreateMatch_def ok_result_def preserved_create)
next
  case (Some nr)
  then show ?thesis
    using ok_validateRecordType [of st env n fld payload]
    by (simp add: lookupOrCreateMatch_def ok_result_def)
qed

lemma preserved_setValue: "preserved st (updateRecord rid (\<lambda>r. setValue r k v) st)"
  by (rule preserved_updateRecord) (simp_all add: setValue_def)

lemma preserved_setLinkedRecordID: "preserved st (updateRecord rid (\<lambda>r. setLinkedRecordID r k v) st)"
  by (rule preserved_updateRecord) (simp_all add: setLinkedRecordID_def)

lemma preserved_setLinkedRecordIDs: "preserved st (updateRecord rid (\<lambda>r. setLinkedRecordIDs r k v) st)"
  by (rule preserved_updateRecord) (simp_all add: setLinkedRecordIDs_def)

lemma preserved_warn: "preserved st (warn d st)"
  by (simp add: preserved_same warn_def)

lemma preserved_writeNull: "preserved st (writeNull env parent data rk sk rid st)"
  unfolding writeNull_def
  using preserved_trans [OF preserved_warn preserved_setValue] preserved_setValue
  by (simp del: preserved_refl)

lemma path_writeNull [simp]: "path (writeNull env parent data rk sk rid st) = path st"
  by (simp add: writeNull_def warn_def)

lemma ok_readField:
  "readField env parent f rid data st = Done res \<Longrightarrow> ok_result st res"
  by (auto simp: readField_def ok_result_def preserved_writeNull split: if_splits option.splits json.splits)

lemma ok_handleField: "ok_result st (handleField env h rid st)"
  by (auto simp: handleField_def ok_result_def preserved_same split: option.splits)

lemma path_pushMatchPayload [simp]: "path (pushMatchPayload env n fv t st) = path st"
  by (simp add: pushMatchPayload_def split: option.splits json.splits)

lemma recordSource_pushMatchPayload [simp]:
  "recordSource (pushMatchPayload env n fv t st) = recordSource st"
  by (simp add: pushMatchPayload_def split: option.splits json.splits)

lemma ok_normalizeMatchField: "ok_result st (normalizeMatchField env parent f tbl rid data st)"
proof (cases "readField env parent f rid data st")
  case (Done res)
  then show ?thesis by (simp add: normalizeMatchField_def ok_readField)
next
  case (Value rk sk fv)
  have *: "ok_result st (case lookupOrCreateMatch env (MatchField f tbl) n t fv
                (updateRecord rid (\<lambda>r. setLinkedRecordID r sk n) st) of
             Inl e \<Rightarrow> Inl e | Inr st' \<Rightarrow> Inr (pushMatchPayload env n fv t st'))" for n t
    apply (rule ok_shift [OF preserved_setLinkedRecordID])
     apply simp
    apply (rule ok_bind [OF ok_lookupOrCreateMatch])
    apply (rule ok_Inr)
     apply (simp_all add: preserved_same)
    done
  show ?thesis
    unfolding normalizeMatchField_def Value
    by (auto simp: ok_Inl ok_Inr preserved_setValue * split: sum.splits option.splits json.splits)
qed

lemmas walker_induct =
  traverseSelections_forEachSelection_traverseSelection_normalizeDefer_normalizeStream_normalizeField_normalizeLink_normalizePluralLink_forEachItem.induct

lemma preserved_path [simp]: "preserved (st\<lparr>path := p\<rparr>) st' = preserved st st'"
  "preserved st (st'\<lparr>path := p\<rparr>) = preserved st st'"
  by (simp_all add: preserved_def)

lemma preserved_warn_iff [simp]: "preserved (warn d st) st' = preserved st st'"
  "preserved st (warn d st') = preserved st st'"
  by (simp_all add: preserved_def warn_def)

lemma path_warn [simp]: "path (warn d st) = path st"
  by (simp add: warn_def)

lemma ok_warn [simp]: "ok_result (warn d st) r = ok_result st r"
  by (simp add: ok_result_def split: sum.splits prod.splits)

lemma ok_pop:
  "ok_result (st\<lparr>path := path st @ [k]\<rparr>) r \<Longrightarrow>
   ok_result st (case r of Inl x \<Rightarrow> Inl x | Inr st' \<Rightarrow> Inr (st'\<lparr>path := butlast (path st')\<rparr>))"
  by (auto simp: ok_result_def split: sum.splits prod.splits)

lemma ok_items_bind:
  assumes "ok_result st r" "\<And>st'. r = Inr st' \<Longrightarrow> ok_items st' (k st')"
  shows "ok_items st (case r of Inl e \<Rightarrow> Inl e | Inr st' \<Rightarrow> k st')"
  using assms
  by (auto simp: ok_result_def ok_items_def split: sum.splits prod.splits intro: preserved_trans)

lemma ok_items_push:
  assumes "ok_items (st\<lparr>path := butlast (path st)\<rparr>) r" 
  shows "preserved st0 st \<Longrightarrow> path st = path st0 @ [k] \<Longrightarrow> ok_items st0 r"
  using assms
  by (auto simp: ok_items_def split: sum.splits prod.splits intro: preserved_trans)

lemma walker_ok:
  "ok_result st (traverseSelections env nd rid data st)"
  "ok_result st (forEachSelection env nd sels rid data st)"
  "ok_result st (traverseSelection env nd sel rid data st)"
  "ok_result st (normalizeDefer env i l sels rid data st)"
  "ok_result st (normalizeStream env i l sels rid data st)"
  "ok_result st (normalizeField env parent sel rid data st)"
  "ok_result st (normalizeLink env fld rid sk fv st)"
  "ok_result st (normalizePluralLink env fld rid sk fv st)"
  "ok_items st (forEachItem env fld rid sk prev items idx ids st)"
proof (induct env nd rid data st and env nd sels rid data st and env nd sel rid data st
    and env i l sels rid data st and env i l sels rid data st and env parent sel rid data st
    and env fld rid sk fv st and env fld rid sk fv st and env fld rid sk prev items idx ids st
    rule: walker_induct)
  case (10 env nd selection rest rid data st)
  show ?case
    unfolding forEachSelection.simps by (rule ok_bind [OF 10(1) 10(2)])
next
  case (13 env nd c pv sels rid data st)
  show ?case
    unfolding traverseSelection.simps
    by (auto simp del: traverseSelections.simps simp: ok_Inl ok_Inr split: sum.splits intro: 13)
next
  case (14 env nd ty sels rid data st)
  show ?case
    unfolding traverseSelection.simps
    by (auto simp del: traverseSelections.simps simp: ok_Inl ok_Inr split: option.splits intro: 14)
next
  case (23 env i l sels rid data st)
  show ?case
    unfolding normalizeDefer.simps
    using 23 [of "JBool False"]
    by (auto simp del: traverseSelections.simps simp: ok_Inl ok_Inr preserved_same warn_def
        split: sum.splits option.splits)
next
  case (24 env i l sels rid data st)
  show ?case
    unfolding normalizeStream.simps
    apply (rule ok_bind [OF 24])
    apply (auto simp: ok_Inl ok_Inr preserved_same warn_def split: sum.splits option.splits)
    done
next
  case (25 env parent f rid data st)
  show ?case
    by (cases "readField env parent f rid data st")
       (auto simp: ok_readField ok_Inr preserved_setValue)
next
  case (26 env parent f ct pl sels rid data st)
  show ?case
  proof (cases "readField env parent f rid data st")
    case (Done res)
    then show ?thesis by (simp add: ok_readField)
  next
    case (Value rk sk fv)
    show ?thesis
      unfolding normalizeField.simps Value field_read.case
      apply (rule ok_pop)
      using 26(1) [OF Value] 26(2) [OF Value]
      apply (cases pl)
       apply (simp_all del: normalizeLink.simps normalizePluralLink.simps)
      done
  qed
next
  case (28 env field rid storageKey fieldValue st)
  have "ok_result st (case lookupOrCreate env field n fieldValue
              (updateRecord rid (\<lambda>r. setLinkedRecordID r storageKey n) st) of
           Inl e \<Rightarrow> Inl e | Inr st' \<Rightarrow> traverseSelections env field n fieldValue st')"
    if "\<not> \<not> is_object fieldValue" "recordSource st rid = Some r"
      "or_id (get_prop fieldValue ''id'') (getLinkedRecordID r storageKey)
         (generateRelayClientID env (getDataID r) storageKey None) = JStr n" for r n
    apply (rule ok_shift [OF preserved_setLinkedRecordID])
     apply simp
    apply (rule ok_bind [OF ok_lookupOrCreate])
    apply (rule 28 [OF that])
    apply assumption
    done
  then show ?case
    unfolding normalizeLink.simps
    by (auto simp: ok_Inl split: option.splits json.splits)
next
  case (29 env field rid storageKey fieldValue st)
  have "ok_result st (case forEachItem env field rid storageKey (getLinkedRecordIDs r storageKey)
               items 0 [] st of
           Inl e \<Rightarrow> Inl e
         | Inr (nextIDs, st') \<Rightarrow>
             Inr (updateRecord rid (\<lambda>r. setLinkedRecordIDs r storageKey nextIDs) st'))"
    if "as_array fieldValue = Some items" "recordSource st rid = Some r" for r items
    using 29 [OF that] preserved_setLinkedRecordIDs
    by (auto simp: ok_items_def ok_result_def split: sum.splits prod.splits
        intro: preserved_trans)
  then show ?case
    unfolding normalizePluralLink.simps
    by (auto simp: ok_Inl split: option.splits)
next
  case (30 env field rid storageKey prevIDs nextIndex nextIDs st)
  show ?case by (simp add: ok_items_def)
next
  case (31 env field rid storageKey prevIDs item rest nextIndex nextIDs st)
  let ?st1 = "st\<lparr>path := path st @ [string_of_nat nextIndex]\<rparr>"
  have "ok_items st (case lookupOrCreate env field n item ?st1 of
           Inl e \<Rightarrow> Inl e
         | Inr st1 \<Rightarrow>
             (case traverseSelections env field n item st1 of
                Inl e \<Rightarrow> Inl e
              | Inr st2 \<Rightarrow>
                  forEachItem env field rid storageKey prevIDs rest (Suc nextIndex)
                    (nextIDs @ [Some n]) (st2\<lparr>path := butlast (path st2)\<rparr>)))"
    if a: "item \<noteq> JNull" "\<not> \<not> is_object item" "recordSource st rid = Some r"
      "or_id (get_prop item ''id'') (prev_at prevIDs nextIndex)
         (generateRelayClientID env (getDataID r) storageKey (Some nextIndex)) = JStr n" for r n
  proof (cases "lookupOrCreate env field n item ?st1")
    case (Inl e)
    with ok_lookupOrCreate [of ?st1 env field n item] show ?thesis
      by (auto simp: ok_result_def ok_items_def)
  next
    case (Inr st1)
    note l = this
    with ok_lookupOrCreate [of ?st1 env field n item]
    have 1: "preserved st st1" "path st1 = path st @ [string_of_nat nextIndex]"
      by (auto simp: ok_result_def)
    show ?thesis
    proof (cases "traverseSelections env field n item st1")
      case (Inl e)
      with 31(2) [OF a l] 1 l show ?thesis
        by (auto simp: ok_result_def ok_items_def intro: preserved_trans)
    next
      case (Inr st2)
      with 31(2) [OF a l] 1
      have 2: "preserved st st2" "path st2 = path st @ [string_of_nat nextIndex]"
        by (auto simp: ok_result_def intro: preserved_trans)
      from 31(3) [OF a l Inr] 2 l Inr show ?thesis
        by (auto simp: ok_items_def split: sum.splits prod.splits intro: preserved_trans)
    qed
  qed
  then show ?case
    unfolding forEachItem.simps
    using 31(1)
    by (auto simp: ok_items_def split: option.splits json.splits)
qed (simp_all add: ok_Inl ok_Inr ok_handleField ok_normalizeMatchField)

section \<open>Evaluating the fixtures\<close>

lemma testEnv_simps [simp]:
  "variables testEnv = [(''on'', JBool True), (''off'', JBool False)]"
  "handleStrippedNulls testEnv = False"
  "dev testEnv = True"
  "getStorageKey testEnv = (\<lambda>f vs. f_name f)"
  "generateRelayClientID testEnv = clientID"
  "TYPENAME_KEY testEnv = ''__typename''"
  "MATCH_FRAGMENT_KEY testEnv = ''__match_fragment''"
  by (simp_all add: testEnv_def)

lemma field_simps [simp]:
  "f_alias (field n) = None" "f_name (field n) = n" "responseKey (field n) = n"
  by (simp_all add: field_def responseKey_def)

lemma newState_simps [simp]:
  "recordSource (newState s) = s" "path (newState s) = []"
  "incrementalPayloads (newState s) = []" "warnings (newState s) = []"
  "handleFieldPayloads (newState s) = []" "matchFieldPayloads (newState s) = []"
  by (simp_all add: newState_def)

lemma rootSource_simps [simp]: "rootSource ''root'' = Some rootRecord"
  by (simp add: rootSource_def)

lemma updateRecord_simps [simp]:
  "incrementalPayloads (updateRecord rid f st) = incrementalPayloads st"
  "handleFieldPayloads (updateRecord rid f st) = handleFieldPayloads st"
  "matchFieldPayloads (updateRecord rid f st) = matchFieldPayloads st"
  "warnings (updateRecord rid f st) = warnings st"
  "dom (recordSource (updateRecord rid f st)) = dom (recordSource st)"
  by (auto simp: updateRecord_def split: option.splits)

lemma warn_simps [simp]:
  "recordSource (warn d st) = recordSource st"
  "incrementalPayloads (warn d st) = incrementalPayloads st"
  "handleFieldPayloads (warn d st) = handleFieldPayloads st"
  "matchFieldPayloads (warn d st) = matchFieldPayloads st"
  by (simp_all add: warn_def)

lemma string_of_nat_1 [simp]: "string_of_nat 1 = ''1''" "string_of_nat (Suc 0) = ''1''"
  by (simp_all add: string_of_nat.simps)

lemma no_inherited_id [simp]:
  "from_object_prototype p ''id'' = None"
  "own_prop (JPrototype ArrayPrototype) ''id'' = None"
  by (simp_all add: from_object_prototype_def object_functions_def array_functions_def)

lemmas eval_defs =
  readField_def writeNull_def lookupOrCreate_def lookupOrCreateMatch_def concreteOrRecordType_def
  getRecordType_def validateRecordType_def updateRecord_def create_def setValue_def
  setLinkedRecordID_def setLinkedRecordIDs_def getLinkedRecordID_def getLinkedRecordIDs_def
  getDataID_def getType_def getValue_def warn_def clientID_def rootRecord_def ifValue_def
  getVariableValue_def incrementalPayload_def from_object_prototype_def object_functions_def
  array_functions_def lookupMatch_def

section \<open>Scalar fields\<close>

lemma stored_updateRecord:
  "recordSource st rid = Some r \<Longrightarrow>
   stored (Inr (updateRecord rid (\<lambda>r. setValue r k v) st)) rid k = Some (Scalar v)"
  by (simp add: stored_def updateRecord_def getValue_def setValue_def)

lemma stored_writeNull:
  "recordSource st rid = Some r \<Longrightarrow>
   stored (Inr (writeNull env parent data rk k rid st)) rid k = Some (Scalar JNull)"
  by (simp add: stored_def writeNull_def updateRecord_def getValue_def setValue_def warn_def)

text \<open>
  What a scalar field stores is decided by the lookup \<open>data[responseKey]\<close>.  A value that
  the lookup finds and that is not null is stored as it is; a null is stored as null; when
  the lookup finds nothing the field is left untouched if \<open>handleStrippedNulls\<close> is false,
  and null is stored if it is true.
\<close>

lemma scalar_field_lookup:
  assumes "is_object data" and "recordSource st rid = Some r"
  shows "(\<forall>v. get_prop data (responseKey f) = Some v \<and> v \<noteq> JNull \<longrightarrow>
            stored (normalizeField env parent (ScalarField f) rid data st) rid
              (getStorageKey env f (variables env)) = Some (Scalar v)) \<and>
         (get_prop data (responseKey f) = Some JNull \<longrightarrow>
            stored (normalizeField env parent (ScalarField f) rid data st) rid
              (getStorageKey env f (variables env)) = Some (Scalar JNull)) \<and>
         (get_prop data (responseKey f) = None \<and> \<not> handleStrippedNulls env \<longrightarrow>
            normalizeField env parent (ScalarField f) rid data st = Inr st) \<and>
         (get_prop data (responseKey f) = None \<and> handleStrippedNulls env \<longrightarrow>
            stored (normalizeField env parent (ScalarField f) rid data st) rid
              (getStorageKey env f (variables env)) = Some (Scalar JNull))"
  using assms
  by (auto simp: readField_def stored_updateRecord stored_writeNull split: json.splits)

text \<open>
  C2.  The lookup follows the prototype chain of the response object, so a key that is
  absent from the response is not always a key for which the lookup finds nothing.  The
  selector below has the one scalar field \<open>constructor\<close> and the response is the empty
  object: the key is absent, and the root record has no such field.  With
  \<open>handleStrippedNulls\<close> false the field should be left untouched, and with
  \<open>handleStrippedNulls\<close> true it should become null; in both calls the record ends up
  holding the function that \<open>Object.prototype\<close> has under that name.
\<close>

theorem scalar_field_inherited_name:
  "own_prop (JObj []) (responseKey (field ''constructor'')) = None \<and>
   getValue rootRecord ''constructor'' = None \<and>
   stored (normalize testEnv rootSource
             \<lparr>sel_dataID = ''root'',
              sel_node = Operation ''Operation'' [ScalarField (field ''constructor'')],
              sel_variables = []\<rparr> (JObj []) (Some False))
     ''root'' ''constructor'' = Some (Scalar (JFunction ObjectPrototype ''constructor'')) \<and>
   stored (normalize testEnv rootSource
             \<lparr>sel_dataID = ''root'',
              sel_node = Operation ''Operation'' [ScalarField (field ''constructor'')],
              sel_variables = []\<rparr> (JObj []) (Some True))
     ''root'' ''constructor'' = Some (Scalar (JFunction ObjectPrototype ''constructor''))"
  by (simp add: normalize_def normalizeResponse_def newNormalizer_def stored_def eval_defs
      testEnv_def)

section \<open>The root record\<close>

text \<open>
  C8.  When the record source has no record at the selector's identity, \<open>normalize\<close>
  fails with the missing-root error in the state it started in, whatever the selections
  are; when the record is there, the call is the traversal of the selector's node.
\<close>

theorem normalize_root_record:
  "(source (sel_dataID sel) = None \<longrightarrow>
      normalize ext source sel response options =
        Inl (MissingRoot (sel_dataID sel), newState source)) \<and>
   (\<forall>r. source (sel_dataID sel) = Some r \<longrightarrow>
      normalize ext source sel response options =
        traverseSelections (newNormalizer ext (sel_variables sel) options)
          (sel_node sel) (sel_dataID sel) response (newState source))"
  by (simp add: normalize_def normalizeResponse_def)

theorem normalize_root_record_witness:
  "rootSource ''other'' = None \<and>
   normalize testEnv rootSource
     \<lparr>sel_dataID = ''other'', sel_node = Operation ''Operation'' [ScalarField (field ''name'')],
      sel_variables = []\<rparr> (JObj [(''name'', JStr ''Ada'')]) None =
     Inl (MissingRoot ''other'', newState rootSource) \<and>
   rootSource ''root'' = Some rootRecord \<and>
   normalize testEnv rootSource
     \<lparr>sel_dataID = ''root'', sel_node = Operation ''Operation'' [ScalarField (field ''name'')],
      sel_variables = []\<rparr> (JObj [(''name'', JStr ''Ada'')]) None =
     traverseSelections (newNormalizer testEnv [] None)
       (Operation ''Operation'' [ScalarField (field ''name'')]) ''root''
       (JObj [(''name'', JStr ''Ada'')]) (newState rootSource)"
  using
    normalize_root_record [of rootSource
      "\<lparr>sel_dataID = ''other'', sel_node = Operation ''Operation'' [ScalarField (field ''name'')],
        sel_variables = []\<rparr>" testEnv "JObj [(''name'', JStr ''Ada'')]" None]
    normalize_root_record [of rootSource
      "\<lparr>sel_dataID = ''root'', sel_node = Operation ''Operation'' [ScalarField (field ''name'')],
        sel_variables = []\<rparr>" testEnv "JObj [(''name'', JStr ''Ada'')]" None]
  by (simp add: rootSource_def)

section \<open>Undefined variables\<close>

lemma forEachSelection_fails:
  assumes "\<And>nd rid data st. isl (traverseSelection env nd sel rid data st)"
  shows "sel \<in> set sels \<Longrightarrow> isl (forEachSelection env nd sels rid data st)"
proof (induction sels arbitrary: st)
  case Nil
  then show ?case by simp
next
  case (Cons s ss)
  show ?case
  proof (cases "traverseSelection env nd s rid data st")
    case (Inl e)
    then show ?thesis by simp
  next
    case (Inr st')
    with assms have "s \<noteq> sel" by (metis sum.disc(2))
    with Cons.prems have "sel \<in> set ss" by simp
    from Cons.IH [OF this] Inr show ?thesis by simp
  qed
qed

lemma guarded_fails:
  assumes "map_of (variables env) v = None" "guarded_by v sel"
  shows "isl (traverseSelection env nd sel rid data st)"
  using assms
  by (cases sel) (auto simp: guarded_by_def getVariableValue_def ifValue_def split: sum.splits)

text \<open>
  C10.  A condition, a defer or a stream whose guard names a variable that the call's
  variables do not bind is fatal: the condition and the defer fail at once, the stream
  fails once its subtree is traversed (or with the failure of the subtree), and a list of
  selections that holds such a selection cannot be traversed to its end.  The error is the
  undefined-variable one, unless the variables bind the name \<open>hasOwnProperty\<close>: then it is
  the failure of the call of that binding.
\<close>

theorem undefined_variable_is_fatal:
  assumes "map_of (variables env) v = None"
  shows "traverseSelection env nd (Condition v pv sels) rid data st =
           Inl (if map_of (variables env) ''hasOwnProperty'' = None then UndefinedVariable v
                else NotAFunction ''hasOwnProperty'', st) \<and>
         traverseSelection env nd (Defer (Some v) l sels) rid data st =
           Inl (if map_of (variables env) ''hasOwnProperty'' = None then UndefinedVariable v
                else NotAFunction ''hasOwnProperty'', st) \<and>
         traverseSelection env nd (Stream (Some v) l sels) rid data st =
           (case traverseSelections env (Stream (Some v) l sels) rid data st of
              Inl e \<Rightarrow> Inl e
            | Inr st1 \<Rightarrow>
                Inl (if map_of (variables env) ''hasOwnProperty'' = None then UndefinedVariable v
                     else NotAFunction ''hasOwnProperty'', st1)) \<and>
         (\<forall>sel \<in> set sels'. guarded_by v sel \<longrightarrow>
            isl (forEachSelection env nd sels' rid data st))"
  using assms forEachSelection_fails [OF guarded_fails [OF assms]]
  by (auto simp: getVariableValue_def ifValue_def split: sum.splits)

theorem undefined_variable_is_fatal_witness:
  "map_of (variables testEnv) ''missing'' = None \<and>
   traverseSelection testEnv (Operation ''Operation'' [])
     (Condition ''missing'' True [ScalarField (field ''name'')]) ''root''
     (JObj [(''name'', JStr ''Ada'')]) (newState rootSource) =
     Inl (UndefinedVariable ''missing'', newState rootSource) \<and>
   traverseSelection testEnv (Operation ''Operation'' [])
     (Defer (Some ''missing'') ''d'' [ScalarField (field ''name'')]) ''root''
     (JObj [(''name'', JStr ''Ada'')]) (newState rootSource) =
     Inl (UndefinedVariable ''missing'', newState rootSource) \<and>
   isl (traverseSelection testEnv (Operation ''Operation'' [])
     (Stream (Some ''missing'') ''s'' [ScalarField (field ''name'')]) ''root''
     (JObj [(''name'', JStr ''Ada'')]) (newState rootSource)) \<and>
   guarded_by ''missing'' (Stream (Some ''missing'') ''s'' []) \<and>
   isl (forEachSelection testEnv (Operation ''Operation'' [])
     [ScalarField (field ''name''), Stream (Some ''missing'') ''s'' []] ''root''
     (JObj [(''name'', JStr ''Ada'')]) (newState rootSource)) \<and>
   map_of (variables (testEnv\<lparr>variables := [(''hasOwnProperty'', JBool True)]\<rparr>)) ''missing'' =
     None \<and>
   traverseSelection (testEnv\<lparr>variables := [(''hasOwnProperty'', JBool True)]\<rparr>)
     (Operation ''Operation'' [])
     (Condition ''missing'' True [ScalarField (field ''name'')]) ''root''
     (JObj [(''name'', JStr ''Ada'')]) (newState rootSource) =
     Inl (NotAFunction ''hasOwnProperty'', newState rootSource)"
proof -
  have h: "map_of (variables testEnv) ''missing'' = None"
    by simp
  have h': "map_of (variables (testEnv\<lparr>variables := [(''hasOwnProperty'', JBool True)]\<rparr>))
      ''missing'' = None"
    by simp
  have n: "traverseSelection (testEnv\<lparr>variables := [(''hasOwnProperty'', JBool True)]\<rparr>)
     (Operation ''Operation'' [])
     (Condition ''missing'' True [ScalarField (field ''name'')]) ''root''
     (JObj [(''name'', JStr ''Ada'')]) (newState rootSource) =
     Inl (NotAFunction ''hasOwnProperty'', newState rootSource)"
    using undefined_variable_is_fatal [OF h', where nd = "Operation ''Operation'' []"
        and pv = True and sels = "[ScalarField (field ''name'')]" and rid = "''root''"
        and data = "JObj [(''name'', JStr ''Ada'')]" and st = "newState rootSource"
        and sels' = "[]", THEN conjunct1]
    by (simp del: traverseSelection.simps)
  have g: "guarded_by ''missing'' (Stream (Some ''missing'') ''s'' [])"
    by (simp add: guarded_by_def)
  note t = undefined_variable_is_fatal [OF h]
  have "isl (traverseSelection testEnv (Operation ''Operation'' [])
     (Stream (Some ''missing'') ''s'' [ScalarField (field ''name'')]) ''root''
     (JObj [(''name'', JStr ''Ada'')]) (newState rootSource))"
    using t [of "Operation ''Operation'' []" True "[ScalarField (field ''name'')]" "''root''"
        "JObj [(''name'', JStr ''Ada'')]" "newState rootSource" "''s''" "[]"]
    by (auto simp del: traverseSelection.simps traverseSelections.simps split: sum.splits)
  moreover have "isl (forEachSelection testEnv (Operation ''Operation'' [])
     [ScalarField (field ''name''), Stream (Some ''missing'') ''s'' []] ''root''
     (JObj [(''name'', JStr ''Ada'')]) (newState rootSource))"
    using t [of "Operation ''Operation'' []" True "[]" "''root''"
        "JObj [(''name'', JStr ''Ada'')]" "newState rootSource" "''s''"
        "[ScalarField (field ''name''), Stream (Some ''missing'') ''s'' []]"] g
    by (simp del: forEachSelection.simps traverseSelection.simps)
  ultimately show ?thesis
    using h h' n g
      t [of "Operation ''Operation'' []" True "[ScalarField (field ''name'')]" "''root''"
        "JObj [(''name'', JStr ''Ada'')]" "newState rootSource" "''d''" "[]"]
    by (simp del: forEachSelection.simps traverseSelection.simps)
qed

section \<open>Defer and stream\<close>






section \<open>Match fields\<close>

text \<open>
  A match field whose response object has a type name for which the lookup in
  \<open>matchesByType\<close> finds nothing writes null at the field's storage key of the owner and
  returns: no error, no other record, no match payload.
\<close>

lemma match_field_no_match:
  assumes "is_object data"
    and "get_prop data (responseKey f) = Some fieldValue"
    and "is_object fieldValue"
    and "get_prop fieldValue (TYPENAME_KEY env) = Some typeName"
    and "typeName \<noteq> JNull"
    and "to_key typeName = Some key"
    and "lookupMatch matchesByType key = None"
    and "recordSource st rid = Some r"
  shows "normalizeMatchField env parent f matchesByType rid data st =
           Inr (st\<lparr>recordSource := (recordSource st)
                  (rid \<mapsto> setValue r (getStorageKey env f (variables env)) JNull)\<rparr>) \<and>
         stored (normalizeMatchField env parent f matchesByType rid data st) rid
           (getStorageKey env f (variables env)) = Some (Scalar JNull) \<and>
         dom ((recordSource st)(rid \<mapsto> setValue r (getStorageKey env f (variables env)) JNull)) =
           dom (recordSource st)"
proof -
  from assms(3) have "fieldValue \<noteq> JNull"
    by auto
  with assms have "readField env parent f rid data st =
      Value (responseKey f) (getStorageKey env f (variables env)) fieldValue"
    by (auto simp: readField_def split: json.splits)
  moreover from assms have "getRecordType env fieldValue = Inr typeName"
    by (auto simp: getRecordType_def split: json.splits)
  ultimately have "normalizeMatchField env parent f matchesByType rid data st =
      Inr (updateRecord rid (\<lambda>r. setValue r (getStorageKey env f (variables env)) JNull) st)"
    using assms by (simp add: normalizeMatchField_def)
  with assms(8) show ?thesis
    by (auto simp: stored_updateRecord) (auto simp: updateRecord_def)
qed

text \<open>
  C6.  The lookup in \<open>matchesByType\<close> follows the prototype chain of the table, so a type
  name with no entry in the table is not always one for which the lookup finds nothing.
  The match field below has the one entry \<open>User\<close>, and the response object of the field has
  the type name \<open>constructor\<close>: the table has no entry for it, and the field should become
  null with no record created and no match payload.  The call instead links the field to
  the identity \<open>9\<close>, creates the record of \<open>9\<close> with that type, and appends a match
  payload.
\<close>

theorem match_field_inherited_type_name:
  "to_key (JStr ''constructor'') = Some ''constructor'' \<and>
   map_of [(''User'', ''UserFragment'')] ''constructor'' = None \<and>
   rootSource ''9'' = None \<and>
   normalize testEnv rootSource
     \<lparr>sel_dataID = ''root'',
      sel_node = Operation ''Operation''
        [MatchField (field ''actor'') [(''User'', ''UserFragment'')]],
      sel_variables = []\<rparr>
     (JObj [(''actor'', JObj [(''__typename'', JStr ''constructor''), (''id'', JStr ''9''),
                             (''__match_fragment'', JStr ''ActorFragment'')])]) None =
   Inr ((newState rootSource)
          \<lparr>recordSource :=
             rootSource(''root'' \<mapsto> setLinkedRecordID rootRecord ''actor'' ''9'',
                        ''9'' \<mapsto> create ''9'' (JStr ''constructor'')),
           matchFieldPayloads :=
             [\<lparr>mp_operationReference = JStr ''ActorFragment'',
               mp_dataID = ''9'',
               mp_data = JObj [(''__typename'', JStr ''constructor''), (''id'', JStr ''9''),
                               (''__match_fragment'', JStr ''ActorFragment'')],
               mp_typeName = JStr ''constructor'',
               mp_variables = []\<rparr>]\<rparr>)"
  by (simp add: normalize_def normalizeResponse_def newNormalizer_def normalizeMatchField_def
      pushMatchPayload_def eval_defs testEnv_def rootSource_def newState_def)

section \<open>The type check\<close>

text \<open>
  C7.  When the record of the next identity exists and the observed type resolves, the type
  check returns: with the state untouched when the types are equal, with one diagnostic
  more and the same record source when they differ.  It only runs in a debug build.  And
  whatever a linked or a match field does, failing or not, every record that existed keeps
  its identity and its type.
\<close>

theorem record_type_check_is_harmless:
  assumes "recordSource st n = Some nr"
    and "(if is_linked_field fld then concreteOrRecordType env fld payload
          else getRecordType env payload) = Inr t"
  shows "validateRecordType env n fld payload st =
           Inr (if strict_eq (getType nr) t then st
                else warn (ConflictingTypes (getDataID nr) (getType nr) t) st) \<and>
         recordSource (warn (ConflictingTypes (getDataID nr) (getType nr) t) st) = recordSource st \<and>
         (is_linked_field fld \<longrightarrow>
            lookupOrCreate env fld n payload st =
              Inr (if dev env \<and> \<not> strict_eq (getType nr) t
                   then warn (ConflictingTypes (getDataID nr) (getType nr) t) st else st)) \<and>
         lookupOrCreateMatch env fld n t payload st =
           Inr (if dev env \<and> \<not> strict_eq (getType nr) t
                then warn (ConflictingTypes (getDataID nr) (getType nr) t) st else st) \<and>
         ok_result st (normalizeLink env fld rid sk fv st) \<and>
         ok_result st (normalizePluralLink env fld rid sk fv st) \<and>
         ok_result st (normalizeMatchField env parent f tbl rid data st)"
  using assms walker_ok(7,8) [of st env fld rid sk fv] ok_normalizeMatchField [of st env parent f tbl rid data]
  by (auto simp del: normalizeLink.simps normalizePluralLink.simps
      simp: validateRecordType_def lookupOrCreate_def lookupOrCreateMatch_def)

theorem record_type_check_is_harmless_witness:
  "recordSource (newState userSource) ''1'' = Some (create ''1'' (JStr ''User'')) \<and>
   (if is_linked_field pageF then concreteOrRecordType testEnv pageF (JObj [(''id'', JStr ''1'')])
    else getRecordType testEnv (JObj [(''id'', JStr ''1'')])) = Inr (JStr ''Page'') \<and>
   validateRecordType testEnv ''1'' pageF (JObj [(''id'', JStr ''1'')]) (newState userSource) =
     Inr (warn (ConflictingTypes ''1'' (JStr ''User'') (JStr ''Page'')) (newState userSource)) \<and>
   recordSource (warn (ConflictingTypes ''1'' (JStr ''User'') (JStr ''Page'')) (newState userSource)) =
     userSource \<and>
   lookupOrCreate (testEnv\<lparr>dev := False\<rparr>) pageF ''1'' (JObj [(''id'', JStr ''1'')])
     (newState userSource) = Inr (newState userSource) \<and>
   ok_result (newState userSource)
     (normalizeLink testEnv pageF ''root'' ''page'' (JObj [(''id'', JStr ''1'')])
        (newState userSource)) \<and>
   (case normalizeLink testEnv pageF ''root'' ''page'' (JObj [(''id'', JStr ''1'')])
           (newState userSource) of
      Inl e \<Rightarrow> None
    | Inr st' \<Rightarrow> map_option getType (recordSource st' ''1'')) = Some (JStr ''User'')"
proof -
  have h: "recordSource (newState userSource) ''1'' = Some (create ''1'' (JStr ''User''))"
    by (simp add: userSource_def)
  have t: "(if is_linked_field pageF
            then concreteOrRecordType testEnv pageF (JObj [(''id'', JStr ''1'')])
            else getRecordType testEnv (JObj [(''id'', JStr ''1'')])) = Inr (JStr ''Page'')"
    by (simp add: pageF_def concreteOrRecordType_def)
  have t': "(if is_linked_field pageF
            then concreteOrRecordType (testEnv\<lparr>dev := False\<rparr>) pageF (JObj [(''id'', JStr ''1'')])
            else getRecordType (testEnv\<lparr>dev := False\<rparr>) (JObj [(''id'', JStr ''1'')])) =
           Inr (JStr ''Page'')"
    by (simp add: pageF_def concreteOrRecordType_def)
  have e: "(case normalizeLink testEnv pageF ''root'' ''page'' (JObj [(''id'', JStr ''1'')])
           (newState userSource) of
      Inl e \<Rightarrow> None
    | Inr st' \<Rightarrow> map_option getType (recordSource st' ''1'')) = Some (JStr ''User'')"
    by (simp add: pageF_def eval_defs userSource_def)
  from record_type_check_is_harmless [OF h t, of "''root''" "''page''" "JObj [(''id'', JStr ''1'')]"
      "Operation ''Operation'' []" "field ''x''" "[]" JNull]
    record_type_check_is_harmless [OF h t', of "''root''" "''page''" "JObj [(''id'', JStr ''1'')]"
      "Operation ''Operation'' []" "field ''x''" "[]" JNull]
    h t e
  show ?thesis
    by (simp del: normalizeLink.simps normalizePluralLink.simps
        add: getType_def getDataID_def create_def pageF_def)
qed


section \<open>Plural linked fields\<close>

lemma preserved_record:
  "preserved st st' \<Longrightarrow> recordSource st x = Some r \<Longrightarrow>
   \<exists>r'. recordSource st' x = Some r' \<and> rec_id r' = rec_id r \<and> rec_type r' = rec_type r"
  by (simp add: preserved_def)

lemma forEachItem_ids:
  "forEachItem env fld rid sk prev items idx acc st = Inr (ids, st') \<Longrightarrow>
   recordSource st rid = Some r \<Longrightarrow>
   ids = acc @ map (\<lambda>(i, item). itemID env (rec_id r) sk prev i item)
                 (zip [idx..<idx + length items] items) \<and>
   (\<forall>i < length items. items ! i \<noteq> JNull \<longrightarrow>
      itemID env (rec_id r) sk prev (idx + i) (items ! i) \<noteq> None)"
proof (induction items arbitrary: idx acc st r)
  case Nil
  then show ?case by simp
next
  case (Cons item rest)
  have up: "[idx..<idx + length (item # rest)] = idx # [Suc idx..<Suc idx + length rest]"
    by (simp add: upt_rec)
  show ?case
  proof (cases "item = JNull")
    case True
    with Cons.prems
    have "forEachItem env fld rid sk prev rest (Suc idx) (acc @ [None]) st = Inr (ids, st')"
      by simp
    from Cons.IH [OF this Cons.prems(2)] True show ?thesis
      unfolding up by (auto simp: itemID_def nth_Cons split: nat.splits)
  next
    case False
    let ?st0 = "st\<lparr>path := path st @ [string_of_nat idx]\<rparr>"
    from Cons.prems False obtain n st1 st2 where
      n: "or_id (get_prop item ''id'') (prev_at prev idx)
            (generateRelayClientID env (getDataID r) sk (Some idx)) = JStr n"
      and l: "lookupOrCreate env fld n item ?st0 = Inr st1"
      and t: "traverseSelections env fld n item st1 = Inr st2"
      and f: "forEachItem env fld rid sk prev rest (Suc idx) (acc @ [Some n])
                (st2\<lparr>path := butlast (path st2)\<rparr>) = Inr (ids, st')"
      by (auto simp del: traverseSelections.simps split: if_splits json.splits sum.splits)
    from ok_lookupOrCreate [of ?st0 env fld n item] l have "preserved st st1"
      by (simp add: ok_result_def)
    moreover from walker_ok(1) [of st1 env fld n item] t have "preserved st1 st2"
      by (simp add: ok_result_def)
    ultimately have "preserved st (st2\<lparr>path := butlast (path st2)\<rparr>)"
      by (auto intro: preserved_trans)
    from preserved_record [OF this Cons.prems(2)] obtain r' where
      r': "recordSource (st2\<lparr>path := butlast (path st2)\<rparr>) rid = Some r'" "rec_id r' = rec_id r"
      by auto
    from Cons.IH [OF f r'(1)] r'(2) n False show ?thesis
      unfolding up by (auto simp: itemID_def getDataID_def nth_Cons split: nat.splits)
  qed
qed


lemma normalizePluralLink_ids:
  assumes "recordSource st rid = Some r"
    and "normalizePluralLink env fld rid sk (JArr items) st = Inr st'"
  shows "storedLinks (Inr st') rid sk =
           Some (map (\<lambda>(i, item). itemID env (getDataID r) sk (getLinkedRecordIDs r sk) i item)
                   (zip [0..<length items] items)) \<and>
         (\<forall>i < length items. items ! i \<noteq> JNull \<longrightarrow>
            itemID env (getDataID r) sk (getLinkedRecordIDs r sk) i (items ! i) \<noteq> None)"
proof -
  from assms obtain ids st1 where
    f: "forEachItem env fld rid sk (getLinkedRecordIDs r sk) items 0 [] st = Inr (ids, st1)"
    and st': "st' = updateRecord rid (\<lambda>r. setLinkedRecordIDs r sk ids) st1"
    by (auto split: sum.splits)
  from walker_ok(9) [of st env fld rid sk "getLinkedRecordIDs r sk" items 0 "[]"] f
  have "preserved st st1"
    by (simp add: ok_items_def)
  from preserved_record [OF this assms(1)] obtain r1 where "recordSource st1 rid = Some r1"
    by auto
  then have "storedLinks (Inr st') rid sk = Some ids"
    by (simp add: st' storedLinks_def updateRecord_def getLinkedRecordIDs_def
        setLinkedRecordIDs_def)
  with forEachItem_ids [OF f assms(1)] show ?thesis
    by (simp add: getDataID_def)
qed






section \<open>The identity of a linked record\<close>

lemma or_id_cases:
  "get_prop v ''id'' = Some (JStr s) \<Longrightarrow> s \<noteq> [] \<Longrightarrow> or_id (get_prop v ''id'') b c = JStr s"
  "no_id v \<Longrightarrow> b = Some s \<Longrightarrow> s \<noteq> [] \<Longrightarrow> or_id (get_prop v ''id'') b c = JStr s"
  "no_id v \<Longrightarrow> b = None \<or> b = Some [] \<Longrightarrow> or_id (get_prop v ''id'') b c = JStr c"
  by (auto simp: no_id_def split: option.splits)


text \<open>
  C1, as stated, fails on a payload whose \<open>id\<close> is the empty string: the field is present,
  and the identity written is the client identity.
\<close>

theorem link_identity_counterexample:
  "get_prop (JObj [(''id'', JStr [])]) ''id'' = Some (JStr []) \<and>
   storedLink (normalizeLink testEnv linkF ''root'' ''f'' (JObj [(''id'', JStr [])])
                (newState rootSource)) ''root'' ''f'' = Some ''client:root:f'' \<and>
   storedLink (normalizeLink testEnv linkF ''root'' ''f'' (JObj [(''id'', JStr [])])
                (newState rootSource)) ''root'' ''f'' \<noteq> Some []"
  by (simp add: linkF_def storedLink_def eval_defs rootSource_def)


text \<open>
  C1, amended.  The next identity of a singular linked field is the payload's \<open>id\<close> when
  it is a non-empty string; when the \<open>id\<close> is absent or a value that \<open>||\<close> passes over
  (null, false, zero, the empty string), it is the identity stored at the storage key of
  the owner if that is non-empty, and the client identity generated from the owner's
  identity and the storage key otherwise; an \<open>id\<close> that is a true value but no string is
  fatal.  The identity is written at the owner's storage key before the record is looked
  up.  The items of a plural field resolve in the same way, with the stored identity read
  at the item's index of the list stored before, and the client identity generated with
  the index.
\<close>

theorem link_identity_precedence:
  assumes "recordSource st rid = Some r"
  shows "(is_object fv \<longrightarrow>
           (\<forall>s. get_prop fv ''id'' = Some (JStr s) \<and> s \<noteq> [] \<longrightarrow>
              normalizeLink env fld rid sk fv st = linkTo env fld rid sk fv s st) \<and>
           (\<forall>s. no_id fv \<and> getLinkedRecordID r sk = Some s \<and> s \<noteq> [] \<longrightarrow>
              normalizeLink env fld rid sk fv st = linkTo env fld rid sk fv s st) \<and>
           (no_id fv \<and> (getLinkedRecordID r sk = None \<or> getLinkedRecordID r sk = Some []) \<longrightarrow>
              normalizeLink env fld rid sk fv st =
                linkTo env fld rid sk fv (generateRelayClientID env (getDataID r) sk None) st) \<and>
           (\<forall>v. get_prop fv ''id'' = Some v \<and> truthy v \<and> (\<forall>s. v \<noteq> JStr s) \<longrightarrow>
              normalizeLink env fld rid sk fv st = Inl (ExpectedStringID sk, st))) \<and>
         (\<forall>n. storedLink (Inr (updateRecord rid (\<lambda>r. setLinkedRecordID r sk n) st)) rid sk = Some n) \<and>
         (\<forall>items st'. normalizePluralLink env fld rid sk (JArr items) st = Inr st' \<longrightarrow>
            (\<exists>ids. storedLinks (Inr st') rid sk = Some ids \<and> length ids = length items \<and>
               (\<forall>i < length items. items ! i \<noteq> JNull \<longrightarrow>
                  (\<forall>s. get_prop (items ! i) ''id'' = Some (JStr s) \<and> s \<noteq> [] \<longrightarrow>
                     ids ! i = Some s) \<and>
                  (\<forall>s. no_id (items ! i) \<and> prev_at (getLinkedRecordIDs r sk) i = Some s \<and> s \<noteq> [] \<longrightarrow>
                     ids ! i = Some s) \<and>
                  (no_id (items ! i) \<and>
                   (prev_at (getLinkedRecordIDs r sk) i = None \<or>
                    prev_at (getLinkedRecordIDs r sk) i = Some []) \<longrightarrow>
                     ids ! i = Some (generateRelayClientID env (getDataID r) sk (Some i))))))"
proof -
  have a: "is_object fv \<longrightarrow>
           (\<forall>s. get_prop fv ''id'' = Some (JStr s) \<and> s \<noteq> [] \<longrightarrow>
              normalizeLink env fld rid sk fv st = linkTo env fld rid sk fv s st) \<and>
           (\<forall>s. no_id fv \<and> getLinkedRecordID r sk = Some s \<and> s \<noteq> [] \<longrightarrow>
              normalizeLink env fld rid sk fv st = linkTo env fld rid sk fv s st) \<and>
           (no_id fv \<and> (getLinkedRecordID r sk = None \<or> getLinkedRecordID r sk = Some []) \<longrightarrow>
              normalizeLink env fld rid sk fv st =
                linkTo env fld rid sk fv (generateRelayClientID env (getDataID r) sk None) st) \<and>
           (\<forall>v. get_prop fv ''id'' = Some v \<and> truthy v \<and> (\<forall>s. v \<noteq> JStr s) \<longrightarrow>
              normalizeLink env fld rid sk fv st = Inl (ExpectedStringID sk, st))"
    using assms
    by (auto simp del: traverseSelections.simps simp: linkTo_def or_id_cases split: json.splits)
  have b: "storedLink (Inr (updateRecord rid (\<lambda>r. setLinkedRecordID r sk n) st)) rid sk = Some n"
    for n
    using assms
    by (simp add: storedLink_def updateRecord_def getLinkedRecordID_def setLinkedRecordID_def)
  have c: "\<exists>ids. storedLinks (Inr st') rid sk = Some ids \<and> length ids = length items \<and>
             (\<forall>i < length items. items ! i \<noteq> JNull \<longrightarrow>
                (\<forall>s. get_prop (items ! i) ''id'' = Some (JStr s) \<and> s \<noteq> [] \<longrightarrow>
                   ids ! i = Some s) \<and>
                (\<forall>s. no_id (items ! i) \<and> prev_at (getLinkedRecordIDs r sk) i = Some s \<and> s \<noteq> [] \<longrightarrow>
                   ids ! i = Some s) \<and>
                (no_id (items ! i) \<and>
                 (prev_at (getLinkedRecordIDs r sk) i = None \<or>
                  prev_at (getLinkedRecordIDs r sk) i = Some []) \<longrightarrow>
                   ids ! i = Some (generateRelayClientID env (getDataID r) sk (Some i))))"
    if "normalizePluralLink env fld rid sk (JArr items) st = Inr st'" for items st'
  proof -
    let ?ids = "map (\<lambda>(i, item). itemID env (getDataID r) sk (getLinkedRecordIDs r sk) i item)
                  (zip [0..<length items] items)"
    from normalizePluralLink_ids [OF assms that]
    have 1: "storedLinks (Inr st') rid sk = Some ?ids"
      by simp
    have 3: "?ids ! i = itemID env (getDataID r) sk (getLinkedRecordIDs r sk) i (items ! i)"
      if "i < length items" for i
      using that by simp
    show ?thesis
      apply (intro exI [of _ ?ids] conjI 1)
       apply simp
      apply (intro allI impI)
      apply (simp only: 3)
      apply (auto simp: itemID_def or_id_cases)
      done
  qed
  from a b c show ?thesis
    by blast
qed

theorem link_identity_precedence_witness:
  "recordSource (newState rootSource) ''root'' = Some rootRecord \<and>
   recordSource (newState linkedSource) ''root'' = Some (setLinkedRecordID rootRecord ''f'' ''old'') \<and>
   is_object (JObj [(''id'', JStr ''7'')]) \<and> is_object (JObj []) \<and> no_id (JObj []) \<and>
   normalizeLink testEnv linkF ''root'' ''f'' (JObj [(''id'', JStr ''7'')]) (newState linkedSource) =
     linkTo testEnv linkF ''root'' ''f'' (JObj [(''id'', JStr ''7'')]) ''7'' (newState linkedSource) \<and>
   normalizeLink testEnv linkF ''root'' ''f'' (JObj []) (newState linkedSource) =
     linkTo testEnv linkF ''root'' ''f'' (JObj []) ''old'' (newState linkedSource) \<and>
   normalizeLink testEnv linkF ''root'' ''f'' (JObj []) (newState rootSource) =
     linkTo testEnv linkF ''root'' ''f'' (JObj []) ''client:root:f'' (newState rootSource) \<and>
   normalizeLink testEnv linkF ''root'' ''f'' (JObj [(''id'', JNum 7)]) (newState rootSource) =
     Inl (ExpectedStringID ''f'', newState rootSource) \<and>
   storedLink (Inr (updateRecord ''root'' (\<lambda>r. setLinkedRecordID r ''f'' ''7'')
                      (newState linkedSource))) ''root'' ''f'' = Some ''7'' \<and>
   (\<exists>st'. normalizePluralLink testEnv friends ''root'' ''friends''
            (JArr [JObj [(''id'', JStr ''a'')], JObj []]) (newState rootSource) = Inr st' \<and>
      (\<exists>ids. storedLinks (Inr st') ''root'' ''friends'' = Some ids \<and> length ids = 2 \<and>
         ids ! 0 = Some ''a'' \<and> ids ! 1 = Some ''client:root:friends:1''))"
proof -
  have r: "recordSource (newState rootSource) ''root'' = Some rootRecord"
    and l: "recordSource (newState linkedSource) ''root'' =
              Some (setLinkedRecordID rootRecord ''f'' ''old'')"
    by (simp_all add: linkedSource_def)
  note t1 = link_identity_precedence [OF l, of _ testEnv linkF "''f''"]
    and t2 = link_identity_precedence [OF r, of _ testEnv linkF "''f''"]
    and t3 = link_identity_precedence [OF r, of "JObj []" testEnv friends "''friends''"]
  have o: "is_object (JObj [(''id'', JStr ''7'')])" "is_object (JObj [])"
    "is_object (JObj [(''id'', JNum 7)])" "no_id (JObj [])"
    by (simp_all add: no_id_def)
  have 1: "normalizeLink testEnv linkF ''root'' ''f'' (JObj [(''id'', JStr ''7'')])
             (newState linkedSource) =
           linkTo testEnv linkF ''root'' ''f'' (JObj [(''id'', JStr ''7'')]) ''7''
             (newState linkedSource)"
    using t1 [of "JObj [(''id'', JStr ''7'')]"] by (simp del: normalizeLink.simps)
  have 2: "normalizeLink testEnv linkF ''root'' ''f'' (JObj []) (newState linkedSource) =
           linkTo testEnv linkF ''root'' ''f'' (JObj []) ''old'' (newState linkedSource)"
    using t1 [of "JObj []"] o
    by (simp del: normalizeLink.simps add: getLinkedRecordID_def setLinkedRecordID_def)
  have 3: "normalizeLink testEnv linkF ''root'' ''f'' (JObj []) (newState rootSource) =
           linkTo testEnv linkF ''root'' ''f'' (JObj []) ''client:root:f'' (newState rootSource)"
    using t2 [of "JObj []"] o
    by (simp del: normalizeLink.simps
        add: getLinkedRecordID_def rootRecord_def create_def clientID_def getDataID_def)
  have 4: "normalizeLink testEnv linkF ''root'' ''f'' (JObj [(''id'', JNum 7)])
             (newState rootSource) = Inl (ExpectedStringID ''f'', newState rootSource)"
    using t2 [of "JObj [(''id'', JNum 7)]"] by (simp del: normalizeLink.simps)
  have 5: "storedLink (Inr (updateRecord ''root'' (\<lambda>r. setLinkedRecordID r ''f'' ''7'')
                      (newState linkedSource))) ''root'' ''f'' = Some ''7''"
    using t1 [of "JObj []"] by blast
  have "\<exists>st'. normalizePluralLink testEnv friends ''root'' ''friends''
            (JArr [JObj [(''id'', JStr ''a'')], JObj []]) (newState rootSource) = Inr st'"
    by (simp add: friends_def eval_defs rootSource_def)
  then obtain st' where n: "normalizePluralLink testEnv friends ''root'' ''friends''
      (JArr [JObj [(''id'', JStr ''a'')], JObj []]) (newState rootSource) = Inr st'"
    by blast
  note p = t3 [THEN conjunct2, THEN conjunct2, rule_format, OF n]
  then obtain ids where
    ids: "storedLinks (Inr st') ''root'' ''friends'' = Some ids"
    "length ids = length [JObj [(''id'', JStr ''a'')], JObj []]"
    "\<forall>i < length [JObj [(''id'', JStr ''a'')], JObj []].
        [JObj [(''id'', JStr ''a'')], JObj []] ! i \<noteq> JNull \<longrightarrow>
        (\<forall>s. get_prop ([JObj [(''id'', JStr ''a'')], JObj []] ! i) ''id'' = Some (JStr s) \<and> s \<noteq> [] \<longrightarrow>
           ids ! i = Some s) \<and>
        (\<forall>s. no_id ([JObj [(''id'', JStr ''a'')], JObj []] ! i) \<and>
             prev_at (getLinkedRecordIDs rootRecord ''friends'') i = Some s \<and> s \<noteq> [] \<longrightarrow>
           ids ! i = Some s) \<and>
        (no_id ([JObj [(''id'', JStr ''a'')], JObj []] ! i) \<and>
         (prev_at (getLinkedRecordIDs rootRecord ''friends'') i = None \<or>
          prev_at (getLinkedRecordIDs rootRecord ''friends'') i = Some []) \<longrightarrow>
           ids ! i = Some (generateRelayClientID testEnv (getDataID rootRecord) ''friends'' (Some i)))"
    by blast
  from ids(3) [rule_format, of 0] ids(3) [rule_format, of 1]
  have "ids ! 0 = Some ''a''" "ids ! 1 = Some ''client:root:friends:1''"
    by (simp_all add: no_id_def getLinkedRecordIDs_def rootRecord_def create_def clientID_def
        getDataID_def)
  moreover from ids(2) have "length ids = 2"
    by simp
  ultimately have 6: "\<exists>st'. normalizePluralLink testEnv friends ''root'' ''friends''
            (JArr [JObj [(''id'', JStr ''a'')], JObj []]) (newState rootSource) = Inr st' \<and>
      (\<exists>ids. storedLinks (Inr st') ''root'' ''friends'' = Some ids \<and> length ids = 2 \<and>
         ids ! 0 = Some ''a'' \<and> ids ! 1 = Some ''client:root:friends:1'')"
    using ids(1) n by blast
  from r l o 1 2 3 4 5 6 show ?thesis
    by blast
qed

section \<open>Normalizing twice\<close>

lemma within_preserved: "preserved s s' \<Longrightarrow> within F s' \<Longrightarrow> within F s"
  unfolding preserved_def within_def by metis

lemma sim_record:
  assumes "sim F s t" "within F s" "recordSource s rid = Some rs"
  shows "\<exists>rt. recordSource t rid = Some rt \<and> rec_id rt = rec_id rs \<and> rec_type rt = rec_type rs"
proof -
  from assms(2,3) obtain rF where rF: "F rid = Some rF" "rec_id rF = rec_id rs"
    "rec_type rF = rec_type rs"
    unfolding within_def by blast
  with assms(1) obtain rt where rt: "recordSource t rid = Some rt"
    unfolding sim_def by (metis option.exhaust option.distinct(1))
  with assms(1) rF show ?thesis
    unfolding sim_def by (metis option.inject)
qed

lemma sim_warn [simp]: "sim F (warn d s) t = sim F s t" "sim F s (warn d t) = sim F s t"
  by (simp_all add: sim_def warn_def)

lemma sim_path: "sim F s t \<Longrightarrow> sim F (s\<lparr>path := p\<rparr>) (t\<lparr>path := p\<rparr>)"
  by (simp add: sim_def)

lemma sim_path_eq: "sim F s t \<Longrightarrow> path t = path s"
  by (simp add: sim_def)

lemma sim_incremental:
  "sim F s t \<Longrightarrow>
   sim F (s\<lparr>incrementalPayloads := incrementalPayloads s @ [p]\<rparr>)
         (t\<lparr>incrementalPayloads := incrementalPayloads t @ [p]\<rparr>)"
  by (simp add: sim_def)

lemma sim_handle:
  "sim F s t \<Longrightarrow>
   sim F (s\<lparr>handleFieldPayloads := handleFieldPayloads s @ [p]\<rparr>)
         (t\<lparr>handleFieldPayloads := handleFieldPayloads t @ [p]\<rparr>)"
  by (simp add: sim_def)

lemma sim_match:
  "sim F s t \<Longrightarrow>
   sim F (s\<lparr>matchFieldPayloads := matchFieldPayloads s @ [p]\<rparr>)
         (t\<lparr>matchFieldPayloads := matchFieldPayloads t @ [p]\<rparr>)"
  by (simp add: sim_def)

lemma sim_update:
  assumes s: "sim F s t" and rs: "recordSource s rid = Some rs"
    and f: "\<And>r. rec_id (f r) = rec_id r" "\<And>r. rec_type (f r) = rec_type r"
      "\<And>r. rec_fields (f r) = (rec_fields r)(k \<mapsto> v)"
  shows "sim F (updateRecord rid f s) (updateRecord rid f t)"
proof (cases "recordSource t rid")
  case None
  with s rs show ?thesis
    unfolding sim_def updateRecord_def
    by (auto split: option.splits)
next
  case (Some rt)
  have rsu: "recordSource (updateRecord rid f s) = (recordSource s)(rid \<mapsto> f rs)"
    using rs by (simp add: updateRecord_def)
  have rtu: "recordSource (updateRecord rid f t) = (recordSource t)(rid \<mapsto> f rt)"
    using Some by (simp add: updateRecord_def)
  have o: "path (updateRecord rid f t) = path (updateRecord rid f s)"
    "incrementalPayloads (updateRecord rid f t) = incrementalPayloads (updateRecord rid f s)"
    "handleFieldPayloads (updateRecord rid f t) = handleFieldPayloads (updateRecord rid f s)"
    "matchFieldPayloads (updateRecord rid f t) = matchFieldPayloads (updateRecord rid f s)"
    using s by (simp_all add: sim_def)
  have d: "(recordSource (updateRecord rid f t) x = None) = (F x = None)" for x
  proof (cases "x = rid")
    case True
    from s Some have "F rid \<noteq> None"
      unfolding sim_def by (metis option.distinct(1))
    with True show ?thesis
      by (simp add: rtu)
  next
    case False
    with s show ?thesis
      by (simp add: rtu sim_def)
  qed
  have r: "\<exists>rF. F x = Some rF \<and> rec_id rt' = rec_id rF \<and> rec_type rt' = rec_type rF \<and>
           (\<forall>k. rec_fields rt' k = rec_fields rF k \<or>
                (\<exists>rs. recordSource (updateRecord rid f s) x = Some rs \<and>
                      rec_fields rt' k = rec_fields rs k))"
    if "recordSource (updateRecord rid f t) x = Some rt'" for x rt'
  proof (cases "x = rid")
    case True
    with that have rt': "rt' = f rt"
      by (simp add: rtu)
    from s Some obtain rF where rF: "F rid = Some rF" "rec_id rt = rec_id rF"
      "rec_type rt = rec_type rF"
      "\<forall>k. rec_fields rt k = rec_fields rF k \<or>
           (\<exists>rs. recordSource s rid = Some rs \<and> rec_fields rt k = rec_fields rs k)"
      unfolding sim_def by blast
    show ?thesis
      unfolding True rt' rsu
      apply (rule exI [of _ rF])
      using rF rs by (auto simp: f)
  next
    case False
    with that have "recordSource t x = Some rt'"
      by (simp add: rtu)
    with s False show ?thesis
      unfolding sim_def rsu by auto
  qed
  from o d r show ?thesis
    unfolding sim_def by blast
qed

lemma sim_setValue:
  "sim F s t \<Longrightarrow> recordSource s rid = Some rs \<Longrightarrow>
   sim F (updateRecord rid (\<lambda>r. setValue r k v) s) (updateRecord rid (\<lambda>r. setValue r k v) t)"
  by (rule sim_update [where k = k and v = "Scalar v"]) (simp_all add: setValue_def)

lemma sim_setLinkedRecordID:
  "sim F s t \<Longrightarrow> recordSource s rid = Some rs \<Longrightarrow>
   sim F (updateRecord rid (\<lambda>r. setLinkedRecordID r k v) s)
         (updateRecord rid (\<lambda>r. setLinkedRecordID r k v) t)"
  by (rule sim_update [where k = k and v = "Link v"]) (simp_all add: setLinkedRecordID_def)

lemma sim_setLinkedRecordIDs:
  "sim F s t \<Longrightarrow> recordSource s rid = Some rs \<Longrightarrow>
   sim F (updateRecord rid (\<lambda>r. setLinkedRecordIDs r k v) s)
         (updateRecord rid (\<lambda>r. setLinkedRecordIDs r k v) t)"
  by (rule sim_update [where k = k and v = "Links v"]) (simp_all add: setLinkedRecordIDs_def)

lemma sim_create:
  assumes "sim F s t" "recordSource s x = None"
  shows "sim F (s\<lparr>recordSource := (recordSource s)(x \<mapsto> r)\<rparr>) t"
proof -
  have "\<exists>rF. F y = Some rF \<and> rec_id rt = rec_id rF \<and> rec_type rt = rec_type rF \<and>
          (\<forall>k. rec_fields rt k = rec_fields rF k \<or>
               (\<exists>rs. ((recordSource s)(x \<mapsto> r)) y = Some rs \<and> rec_fields rt k = rec_fields rs k))"
    if "recordSource t y = Some rt" for y rt
  proof -
    from assms(1) that obtain rF where rF: "F y = Some rF" "rec_id rt = rec_id rF"
      "rec_type rt = rec_type rF"
      "\<forall>k. rec_fields rt k = rec_fields rF k \<or>
           (\<exists>rs. recordSource s y = Some rs \<and> rec_fields rt k = rec_fields rs k)"
      unfolding sim_def by blast
    show ?thesis
      apply (rule exI [of _ rF])
      using rF assms(2) by (cases "y = x") auto
  qed
  with assms(1) show ?thesis
    unfolding sim_def by simp
qed

lemma replays_Inl [simp]: "replays F (Inl e) rt"
  by (simp add: replays_def)

lemma replays_Inr: "sim F s' t' \<Longrightarrow> replays F (Inr s') (Inr t')"
  by (simp add: replays_def)

lemma replays_bind:
  assumes "replays F rs rt"
    and "\<And>s1 t1. rs = Inr s1 \<Longrightarrow> rt = Inr t1 \<Longrightarrow> sim F s1 t1 \<Longrightarrow> replays F (k s1) (k' t1)"
    and "\<And>s1 s'. rs = Inr s1 \<Longrightarrow> k s1 = Inr s' \<Longrightarrow> preserved s1 s'"
  shows "replays F (case rs of Inl e \<Rightarrow> Inl e | Inr x \<Rightarrow> k x)
                   (case rt of Inl e \<Rightarrow> Inl e | Inr x \<Rightarrow> k' x)"
proof (cases rs)
  case (Inl e)
  then show ?thesis by simp
next
  case (Inr s1)
  show ?thesis
    unfolding replays_def
  proof (intro allI impI)
    fix s'
    assume a: "(case rs of Inl e \<Rightarrow> Inl e | Inr x \<Rightarrow> k x) = Inr s'" and w: "within F s'"
    with Inr have k: "k s1 = Inr s'"
      by simp
    from assms(3) [OF Inr k] w have "within F s1"
      by (rule within_preserved)
    with assms(1) Inr obtain t1 where t1: "rt = Inr t1" "sim F s1 t1"
      unfolding replays_def by blast
    from assms(2) [OF Inr t1] k w obtain t' where "k' t1 = Inr t'" "sim F s' t'"
      unfolding replays_def by blast
    with t1 show "\<exists>t'. (case rt of Inl e \<Rightarrow> Inl e | Inr x \<Rightarrow> k' x) = Inr t' \<and> sim F s' t'"
      by simp
  qed
qed

lemma within_warn [simp]: "within F (warn d s) = within F s"
  by (simp add: within_def warn_def)

lemma within_path [simp]: "within F (s\<lparr>path := p\<rparr>) = within F s"
  by (simp add: within_def)

lemma replays_validateRecordType:
  assumes "sim F s t" "recordSource s n = Some nr"
  shows "replays F (validateRecordType env n fld p s) (validateRecordType env n fld p t)"
  unfolding replays_def
proof (intro allI impI)
  fix s'
  assume a: "validateRecordType env n fld p s = Inr s'" and w: "within F s'"
  from a assms(2) have "s' = s \<or> (\<exists>d. s' = warn d s)"
    by (auto simp: validateRecordType_def split: sum.splits if_splits)
  with w have ws: "within F s"
    by auto
  from sim_record [OF assms(1) ws assms(2)] obtain rt where
    rt: "recordSource t n = Some rt" "rec_id rt = rec_id nr" "rec_type rt = rec_type nr"
    by blast
  from a assms rt
  show "\<exists>t'. validateRecordType env n fld p t = Inr t' \<and> sim F s' t'"
    by (auto simp: validateRecordType_def getType_def getDataID_def split: sum.splits if_splits)
qed

lemma validate_after_create:
  assumes "(if is_linked_field fld then concreteOrRecordType env fld p else getRecordType env p) = Inr T"
    and "recordSource t n = Some rt"
  shows "\<exists>t'. validateRecordType env n fld p t = Inr t' \<and> (t' = t \<or> (\<exists>d. t' = warn d t))"
  using assms by (auto simp: validateRecordType_def split: sum.splits option.splits)

lemma sim_dom: "sim F s t \<Longrightarrow> (recordSource t x = None) = (F x = None)"
  by (simp add: sim_def)

lemma within_dom: "within F s \<Longrightarrow> recordSource s x = Some r \<Longrightarrow> F x \<noteq> None"
  unfolding within_def by blast

lemma observed_type:
  "(if is_linked_field fld then concreteOrRecordType env fld p else getRecordType env p) =
   concreteOrRecordType env fld p"
  by (cases fld) (simp_all add: concreteOrRecordType_def)

lemma replays_lookupOrCreate:
  assumes "sim F s t"
  shows "replays F (lookupOrCreate env fld n p s) (lookupOrCreate env fld n p t)"
proof (cases "recordSource s n")
  case (Some nr)
  show ?thesis
    unfolding replays_def
  proof (intro allI impI)
    fix s'
    assume a: "lookupOrCreate env fld n p s = Inr s'" and w: "within F s'"
    show "\<exists>t'. lookupOrCreate env fld n p t = Inr t' \<and> sim F s' t'"
    proof (cases "dev env")
      case True
      with a Some have v: "validateRecordType env n fld p s = Inr s'"
        by (simp add: lookupOrCreate_def)
      from replays_validateRecordType [OF assms(1) Some, of env fld p] v w
      obtain t' where t': "validateRecordType env n fld p t = Inr t'" "sim F s' t'"
        unfolding replays_def by blast
      from v Some have "s' = s \<or> (\<exists>d. s' = warn d s)"
        by (auto simp: validateRecordType_def split: sum.splits if_splits)
      with w have "within F s" by auto
      from sim_record [OF assms(1) this Some] obtain rt where "recordSource t n = Some rt"
        by blast
      with t' True show ?thesis
        by (simp add: lookupOrCreate_def)
    next
      case False
      with a Some have s': "s' = s"
        by (simp add: lookupOrCreate_def)
      from sim_record [OF assms(1) w [unfolded s'] Some] obtain rt where
        "recordSource t n = Some rt"
        by blast
      with False assms(1) s' show ?thesis
        by (simp add: lookupOrCreate_def)
    qed
  qed
next
  case None
  show ?thesis
    unfolding replays_def
  proof (intro allI impI)
    fix s'
    assume a: "lookupOrCreate env fld n p s = Inr s'" and w: "within F s'"
    from a None obtain T where T: "concreteOrRecordType env fld p = Inr T"
      and s': "s' = s\<lparr>recordSource := (recordSource s)(n \<mapsto> create n T)\<rparr>"
      by (auto simp: lookupOrCreate_def split: sum.splits)
    from w have "F n \<noteq> None"
      by (rule within_dom) (simp add: s')
    with sim_dom [OF assms(1), of n] obtain rt where rt: "recordSource t n = Some rt"
      by auto
    have sm: "sim F s' t"
      unfolding s' by (rule sim_create [OF assms(1) None])
    from validate_after_create [of fld env p T t n rt] T observed_type [of fld env p] rt
    obtain t' where "validateRecordType env n fld p t = Inr t'" "t' = t \<or> (\<exists>d. t' = warn d t)"
      by auto
    with rt sm show "\<exists>t'. lookupOrCreate env fld n p t = Inr t' \<and> sim F s' t'"
      by (auto simp: lookupOrCreate_def)
  qed
qed


lemma replays_lookupOrCreateMatch:
  assumes "sim F s t" "getRecordType env p = Inr T" "\<not> is_linked_field fld"
  shows "replays F (lookupOrCreateMatch env fld n T p s) (lookupOrCreateMatch env fld n T p t)"
proof (cases "recordSource s n")
  case (Some nr)
  show ?thesis
    unfolding replays_def
  proof (intro allI impI)
    fix s'
    assume a: "lookupOrCreateMatch env fld n T p s = Inr s'" and w: "within F s'"
    show "\<exists>t'. lookupOrCreateMatch env fld n T p t = Inr t' \<and> sim F s' t'"
    proof (cases "dev env")
      case True
      with a Some have v: "validateRecordType env n fld p s = Inr s'"
        by (simp add: lookupOrCreateMatch_def)
      from replays_validateRecordType [OF assms(1) Some, of env fld p] v w
      obtain t' where t': "validateRecordType env n fld p t = Inr t'" "sim F s' t'"
        unfolding replays_def by blast
      from v Some have "s' = s \<or> (\<exists>d. s' = warn d s)"
        by (auto simp: validateRecordType_def split: sum.splits if_splits)
      with w have "within F s" by auto
      from sim_record [OF assms(1) this Some] obtain rt where "recordSource t n = Some rt"
        by blast
      with t' True show ?thesis
        by (simp add: lookupOrCreateMatch_def)
    next
      case False
      with a Some have s': "s' = s"
        by (simp add: lookupOrCreateMatch_def)
      from sim_record [OF assms(1) w [unfolded s'] Some] obtain rt where
        "recordSource t n = Some rt"
        by blast
      with False assms(1) s' show ?thesis
        by (simp add: lookupOrCreateMatch_def)
    qed
  qed
next
  case None
  show ?thesis
    unfolding replays_def
  proof (intro allI impI)
    fix s'
    assume a: "lookupOrCreateMatch env fld n T p s = Inr s'" and w: "within F s'"
    from a None have s': "s' = s\<lparr>recordSource := (recordSource s)(n \<mapsto> create n T)\<rparr>"
      by (auto simp: lookupOrCreateMatch_def)
    from w have "F n \<noteq> None"
      by (rule within_dom) (simp add: s')
    with sim_dom [OF assms(1), of n] obtain rt where rt: "recordSource t n = Some rt"
      by auto
    have sm: "sim F s' t"
      unfolding s' by (rule sim_create [OF assms(1) None])
    from validate_after_create [of fld env p T t n rt] assms(2,3) rt
    obtain t' where "validateRecordType env n fld p t = Inr t'" "t' = t \<or> (\<exists>d. t' = warn d t)"
      by auto
    with rt sm show "\<exists>t'. lookupOrCreateMatch env fld n T p t = Inr t' \<and> sim F s' t'"
      by (auto simp: lookupOrCreateMatch_def)
  qed
qed

lemma sim_writeNull:
  "sim F s t \<Longrightarrow> recordSource s rid = Some rs \<Longrightarrow>
   sim F (writeNull env parent data rk sk rid s) (writeNull env parent data rk sk rid t)"
proof -
  assume sm: "sim F s t" and rs: "recordSource s rid = Some rs"
  have 1: "sim F (updateRecord rid (\<lambda>r. setValue r sk JNull) s)
             (updateRecord rid (\<lambda>r. setValue r sk JNull) t)"
    by (rule sim_setValue [OF sm rs])
  have "sim F (warn d s) (warn d t)" "recordSource (warn d s) rid = Some rs" for d
    using sm rs by simp_all
  then have 2: "sim F (updateRecord rid (\<lambda>r. setValue r sk JNull) (warn d s))
             (updateRecord rid (\<lambda>r. setValue r sk JNull) (warn d t))" for d
    by (rule sim_setValue)
  from 1 2 show ?thesis
    unfolding writeNull_def by simp
qed

lemma readField_Done:
  assumes "sim F s t" "recordSource s rid = Some rs"
    and "readField env parent f rid data s = Done res"
  shows "\<exists>res'. readField env parent f rid data t = Done res' \<and> replays F res res'"
  using assms
  by (auto simp: readField_def replays_Inr sim_writeNull split: if_splits option.splits json.splits)

lemma readField_Value:
  assumes "readField env parent f rid data s = Value rk sk fv"
  shows "readField env parent f rid data t = Value rk sk fv \<and>
         get_prop data (responseKey f) = Some fv \<and> fv \<noteq> JNull"
  using assms
  by (auto simp: readField_def split: if_splits option.splits json.splits)

lemma replays_handleField:
  assumes "sim F s t"
  shows "replays F (handleField env h rid s) (handleField env h rid t)"
  unfolding replays_def
proof (intro allI impI)
  fix s'
  assume a: "handleField env h rid s = Inr s'" and w: "within F s'"
  from a obtain rs where rs: "recordSource s rid = Some rs"
    by (auto simp: handleField_def split: option.splits)
  from w a rs have "within F s"
    by (auto simp: handleField_def within_def)
  from sim_record [OF assms this rs] obtain rt where
    "recordSource t rid = Some rt" "rec_id rt = rec_id rs"
    by blast
  with a rs assms show "\<exists>t'. handleField env h rid t = Inr t' \<and> sim F s' t'"
    by (auto simp: handleField_def getDataID_def sim_def)
qed

lemma replaysI:
  "(\<And>s'. rs = Inr s' \<Longrightarrow> within F s' \<Longrightarrow> \<exists>t'. rt = Inr t' \<and> sim F s' t') \<Longrightarrow> replays F rs rt"
  by (simp add: replays_def)

lemma replaysD:
  "replays F rs rt \<Longrightarrow> rs = Inr s' \<Longrightarrow> within F s' \<Longrightarrow> \<exists>t'. rt = Inr t' \<and> sim F s' t'"
  by (simp add: replays_def)

lemma ok_preserved: "ok_result s res \<Longrightarrow> res = Inr s' \<Longrightarrow> preserved s s'"
  by (simp add: ok_result_def)

lemma ok_items_preserved: "ok_items s res \<Longrightarrow> res = Inr (ids, s') \<Longrightarrow> preserved s s'"
  by (simp add: ok_items_def)

lemma preserved_owner:
  "preserved s s' \<Longrightarrow> recordSource s rid \<noteq> None \<Longrightarrow> recordSource s' rid \<noteq> None"
  unfolding preserved_def by fastforce

lemma sim_field:
  assumes "sim F s t" "recordSource s rid = Some rs" "recordSource t rid = Some rt"
  shows "\<exists>rF. F rid = Some rF \<and>
           (rec_fields rt k = rec_fields rF k \<or> rec_fields rt k = rec_fields rs k)"
proof -
  from assms(1,3) obtain rF where "F rid = Some rF"
    "\<forall>k. rec_fields rt k = rec_fields rF k \<or>
         (\<exists>rs. recordSource s rid = Some rs \<and> rec_fields rt k = rec_fields rs k)"
    unfolding sim_def by blast
  with assms(2) show ?thesis
    by auto
qed

lemma or_stored_again: "or_stored b c = JStr n \<Longrightarrow> or_stored (Some n) c = JStr n"
  by (cases b) (auto split: if_splits)

lemma or_id_again:
  assumes "or_id (get_prop v ''id'') b c = JStr n"
    and "no_id v \<longrightarrow> b' = b \<or> b' = Some n"
  shows "or_id (get_prop v ''id'') b' c = JStr n"
proof (cases "no_id v")
  case True
  then have *: "or_id (get_prop v ''id'') x c = or_stored x c" for x
    by (auto simp: no_id_def split: option.splits)
  from assms True or_stored_again [of b c n] show ?thesis
    unfolding * by auto
next
  case False
  with assms(1) show ?thesis
    by (auto simp: no_id_def split: option.splits)
qed

lemma held_link:
  "list_all (held F) (resolution rid sk None v n) \<Longrightarrow> F rid = Some rF \<Longrightarrow> no_id v \<Longrightarrow>
   getLinkedRecordID rF sk = Some n"
  by (simp add: resolution_def held_def)

lemma held_item:
  "list_all (held F) (resolution rid sk (Some i) v n) \<Longrightarrow> F rid = Some rF \<Longrightarrow> no_id v \<Longrightarrow>
   prev_at (getLinkedRecordIDs rF sk) i = Some n"
  by (simp add: resolution_def held_def)

lemma link_again:
  assumes sm: "sim F s t" and rs: "recordSource s rid = Some rs"
    and rt: "recordSource t rid = Some rt" "rec_id rt = rec_id rs"
    and n: "or_id (get_prop fv ''id'') (getLinkedRecordID rs sk)
              (generateRelayClientID env (getDataID rs) sk None) = JStr nid"
    and h: "list_all (held F) (resolution rid sk None fv nid)"
  shows "or_id (get_prop fv ''id'') (getLinkedRecordID rt sk)
           (generateRelayClientID env (getDataID rt) sk None) = JStr nid"
proof -
  from sim_field [OF sm rs rt(1), of sk] obtain rF where rF: "F rid = Some rF"
    "rec_fields rt sk = rec_fields rF sk \<or> rec_fields rt sk = rec_fields rs sk"
    by blast
  from rF(2) have "getLinkedRecordID rt sk = getLinkedRecordID rF sk \<or>
      getLinkedRecordID rt sk = getLinkedRecordID rs sk"
    by (auto simp: getLinkedRecordID_def)
  with held_link [OF h rF(1)]
  have "no_id fv \<longrightarrow> getLinkedRecordID rt sk = getLinkedRecordID rs sk \<or>
      getLinkedRecordID rt sk = Some nid"
    by auto
  from or_id_again [OF n this] rt(2) show ?thesis
    by (simp add: getDataID_def)
qed

lemma item_again:
  assumes n: "or_id (get_prop item ''id'') (prev_at prev i) c = JStr nid"
    and h: "list_all (held F) (resolution rid sk (Some i) item nid)"
    and p: "prev' = prev \<or> (\<exists>rF. F rid = Some rF \<and> prev' = getLinkedRecordIDs rF sk)"
  shows "or_id (get_prop item ''id'') (prev_at prev' i) c = JStr nid"
proof -
  from p h have "no_id item \<longrightarrow> prev_at prev' i = prev_at prev i \<or> prev_at prev' i = Some nid"
    using held_item by blast
  from or_id_again [OF n this] show ?thesis .
qed

lemma list_links_again:
  assumes sm: "sim F s t" and rs: "recordSource s rid = Some rs"
    and rt: "recordSource t rid = Some rt"
  shows "getLinkedRecordIDs rt sk = getLinkedRecordIDs rs sk \<or>
         (\<exists>rF. F rid = Some rF \<and> getLinkedRecordIDs rt sk = getLinkedRecordIDs rF sk)"
proof -
  from sim_field [OF sm rs rt, of sk] obtain rF where rF: "F rid = Some rF"
    "rec_fields rt sk = rec_fields rF sk \<or> rec_fields rt sk = rec_fields rs sk"
    by blast
  then show ?thesis
    by (auto simp: getLinkedRecordIDs_def)
qed

lemma recordSource_pushMatch [simp]:
  "within F (pushMatchPayload env n fv T s) = within F s"
  by (simp add: within_def)

lemma sim_pushMatchPayload:
  "sim F s t \<Longrightarrow> sim F (pushMatchPayload env n fv T s) (pushMatchPayload env n fv T t)"
  by (auto simp: pushMatchPayload_def sim_match split: option.splits json.splits)

lemma preserved_pushMatchPayload: "preserved s (pushMatchPayload env n fv T s)"
  by (simp add: preserved_same)

lemma replays_normalizeMatchField:
  assumes sm: "sim F s t" and rs: "recordSource s rid = Some rs"
    and h: "list_all (held F) (resolvedByMatchField env parent f tbl rid data s)"
  shows "replays F (normalizeMatchField env parent f tbl rid data s)
                   (normalizeMatchField env parent f tbl rid data t)"
proof (cases "readField env parent f rid data s")
  case (Done res)
  from readField_Done [OF sm rs Done] Done show ?thesis
    by (auto simp: normalizeMatchField_def)
next
  case (Value rk sk fv)
  note v = readField_Value [OF Value, of t]
  show ?thesis
  proof (rule replaysI)
    fix s'
    assume a: "normalizeMatchField env parent f tbl rid data s = Inr s'" and w: "within F s'"
    from ok_normalizeMatchField [of s env parent f tbl rid data] a have "preserved s s'"
      by (rule ok_preserved)
    then have ws: "within F s"
      using w by (rule within_preserved)
    from sim_record [OF sm ws rs] obtain rt where
      rt: "recordSource t rid = Some rt" "rec_id rt = rec_id rs"
      by blast
    from a Value obtain T key where
      o: "is_object fv" and T: "getRecordType env fv = Inr T" "to_key T = Some key"
      by (auto simp: normalizeMatchField_def split: if_splits sum.splits option.splits)
    show "\<exists>t'. normalizeMatchField env parent f tbl rid data t = Inr t' \<and> sim F s' t'"
    proof (cases "lookupMatch tbl key = None \<or> lookupMatch tbl key = Some JNull")
      case True
      with a Value o T have "s' = updateRecord rid (\<lambda>r. setValue r sk JNull) s"
        by (simp add: normalizeMatchField_def)
      with True v o T sim_setValue [OF sm rs] show ?thesis
        by (simp add: normalizeMatchField_def)
    next
      case False
      then have nn: "lookupMatch tbl key \<noteq> None" "lookupMatch tbl key \<noteq> Some JNull"
        by simp_all
      from a Value o T nn rs obtain nid s1 where
        nid: "or_id (get_prop fv ''id'') (getLinkedRecordID rs sk)
                (generateRelayClientID env (getDataID rs) sk None) = JStr nid"
        and l: "lookupOrCreateMatch env (MatchField f tbl) nid T fv
                  (updateRecord rid (\<lambda>r. setLinkedRecordID r sk nid) s) = Inr s1"
        and s': "s' = pushMatchPayload env nid fv T s1"
        by (auto simp: normalizeMatchField_def split: json.splits sum.splits)
      from h Value o T nn rs nid
      have "list_all (held F) (resolution rid sk None fv nid)"
        by (simp add: resolvedByMatchField_def)
      from link_again [OF sm rs rt nid this]
      have n: "or_id (get_prop fv ''id'') (getLinkedRecordID rt sk)
                  (generateRelayClientID env (getDataID rt) sk None) = JStr nid" .
      from w s' have "within F s1"
        by simp
      from replaysD [OF replays_lookupOrCreateMatch [OF sim_setLinkedRecordID [OF sm rs] T(1)] l this]
      obtain t1 where
        "lookupOrCreateMatch env (MatchField f tbl) nid T fv
           (updateRecord rid (\<lambda>r. setLinkedRecordID r sk nid) t) = Inr t1" "sim F s1 t1"
        by auto
      with v o T nn rt n s' show ?thesis
        by (auto simp: normalizeMatchField_def sim_pushMatchPayload)
    qed
  qed
qed

lemma lookupOrCreate_exists:
  "lookupOrCreate env fld n p st = Inr s1 \<Longrightarrow> recordSource s1 n \<noteq> None"
  by (auto simp: lookupOrCreate_def validateRecordType_def warn_def
      split: option.splits sum.splits if_splits)

lemma sim_push:
  "sim F s t \<Longrightarrow> sim F (s\<lparr>path := path s @ [k]\<rparr>) (t\<lparr>path := path t @ [k]\<rparr>)"
  by (simp add: sim_def)

lemma sim_pop:
  "sim F s t \<Longrightarrow> sim F (s\<lparr>path := butlast (path s)\<rparr>) (t\<lparr>path := butlast (path t)\<rparr>)"
  by (simp add: sim_def)

lemma replays_pop:
  assumes "replays F rs rt"
  shows "replays F (case rs of Inl e \<Rightarrow> Inl e | Inr x \<Rightarrow> Inr (x\<lparr>path := butlast (path x)\<rparr>))
                   (case rt of Inl e \<Rightarrow> Inl e | Inr x \<Rightarrow> Inr (x\<lparr>path := butlast (path x)\<rparr>))"
  by (rule replays_bind [OF assms]) (auto simp: replays_Inr sim_pop preserved_same)

lemma walker_replays:
  "\<forall>t. sim F s t \<longrightarrow> recordSource s rid \<noteq> None \<longrightarrow>
       list_all (held F) (resolvedBySelections env nd rid data s) \<longrightarrow>
       replays F (traverseSelections env nd rid data s) (traverseSelections env nd rid data t)"
  "\<forall>t. sim F s t \<longrightarrow> recordSource s rid \<noteq> None \<longrightarrow>
       list_all (held F) (resolvedByEachSelection env nd sels rid data s) \<longrightarrow>
       replays F (forEachSelection env nd sels rid data s) (forEachSelection env nd sels rid data t)"
  "\<forall>t. sim F s t \<longrightarrow> recordSource s rid \<noteq> None \<longrightarrow>
       list_all (held F) (resolvedBySelection env nd sel rid data s) \<longrightarrow>
       replays F (traverseSelection env nd sel rid data s) (traverseSelection env nd sel rid data t)"
  "\<forall>t. sim F s t \<longrightarrow> recordSource s rid \<noteq> None \<longrightarrow>
       list_all (held F) (resolvedByDefer env i l sels rid data s) \<longrightarrow>
       replays F (normalizeDefer env i l sels rid data s) (normalizeDefer env i l sels rid data t)"
  "\<forall>t. sim F s t \<longrightarrow> recordSource s rid \<noteq> None \<longrightarrow>
       list_all (held F) (resolvedByStream env i l sels rid data s) \<longrightarrow>
       replays F (normalizeStream env i l sels rid data s) (normalizeStream env i l sels rid data t)"
  "\<forall>t. sim F s t \<longrightarrow> recordSource s rid \<noteq> None \<longrightarrow>
       list_all (held F) (resolvedByField env parent sel rid data s) \<longrightarrow>
       replays F (normalizeField env parent sel rid data s) (normalizeField env parent sel rid data t)"
  "\<forall>t. sim F s t \<longrightarrow> recordSource s rid \<noteq> None \<longrightarrow>
       list_all (held F) (resolvedByLink env fld rid sk fv s) \<longrightarrow>
       replays F (normalizeLink env fld rid sk fv s) (normalizeLink env fld rid sk fv t)"
  "\<forall>t. sim F s t \<longrightarrow> recordSource s rid \<noteq> None \<longrightarrow>
       list_all (held F) (resolvedByPluralLink env fld rid sk fv s) \<longrightarrow>
       replays F (normalizePluralLink env fld rid sk fv s) (normalizePluralLink env fld rid sk fv t)"
  "\<forall>t prev'. sim F s t \<longrightarrow> recordSource s rid \<noteq> None \<longrightarrow>
       (prev' = prev \<or> (\<exists>rF. F rid = Some rF \<and> prev' = getLinkedRecordIDs rF sk)) \<longrightarrow>
       list_all (held F) (resolvedByEachItem env fld rid sk prev items idx ids s) \<longrightarrow>
       replays_items F (forEachItem env fld rid sk prev items idx ids s)
                       (forEachItem env fld rid sk prev' items idx ids t)"
proof (induct env nd rid data s and env nd sels rid data s and env nd sel rid data s
    and env i l sels rid data s and env i l sels rid data s and env parent sel rid data s
    and env fld rid sk fv s and env fld rid sk fv s and env fld rid sk prev items idx ids s
    rule: walker_induct)
  case (9 env nd rid data st)
  show ?case
    by (simp add: replays_Inr)
next
  case (17 env nd f matchesByType rid data st)
  show ?case
    by (auto intro!: replays_normalizeMatchField)
next
  case (10 env nd selection rest rid data st)
  show ?case
    unfolding forEachSelection.simps
  proof (intro allI impI)
    fix t
    assume sm: "sim F st t" and o: "recordSource st rid \<noteq> None"
      and h: "list_all (held F) (resolvedByEachSelection env nd (selection # rest) rid data st)"
    from h have h1: "list_all (held F) (resolvedBySelection env nd selection rid data st)"
      by simp
    show "replays F
            (case traverseSelection env nd selection rid data st of
               Inl e \<Rightarrow> Inl e | Inr x \<Rightarrow> forEachSelection env nd rest rid data x)
            (case traverseSelection env nd selection rid data t of
               Inl e \<Rightarrow> Inl e | Inr x \<Rightarrow> forEachSelection env nd rest rid data x)"
    proof (rule replays_bind)
      show "replays F (traverseSelection env nd selection rid data st)
              (traverseSelection env nd selection rid data t)"
        using 10(1) sm o h1 by blast
    next
      fix s1 t1
      assume a: "traverseSelection env nd selection rid data st = Inr s1" "sim F s1 t1"
      from ok_preserved [OF walker_ok(3) a(1)] o have "recordSource s1 rid \<noteq> None"
        by (rule preserved_owner)
      moreover from h a(1) have "list_all (held F) (resolvedByEachSelection env nd rest rid data s1)"
        by simp
      ultimately show "replays F (forEachSelection env nd rest rid data s1)
              (forEachSelection env nd rest rid data t1)"
        using 10(2) [OF a(1)] a(2) by blast
    next
      fix s1 s'
      assume "forEachSelection env nd rest rid data s1 = Inr s'"
      then show "preserved s1 s'"
        by (rule ok_preserved [OF walker_ok(2)])
    qed
  qed
next
  case (13 env nd c pv sels rid data st)
  show ?case
  proof (intro allI impI)
    fix t
    assume sm: "sim F st t" and o: "recordSource st rid \<noteq> None"
      and h: "list_all (held F) (resolvedBySelection env nd (Condition c pv sels) rid data st)"
    show "replays F (traverseSelection env nd (Condition c pv sels) rid data st)
            (traverseSelection env nd (Condition c pv sels) rid data t)"
    proof (cases "getVariableValue env c")
      case (Inl e)
      then show ?thesis by simp
    next
      case (Inr v)
      show ?thesis
      proof (cases "v = JBool pv")
        case True
        from h Inr True
        have "list_all (held F) (resolvedBySelections env (Condition c pv sels) rid data st)"
          by (simp del: resolvedBySelections.simps)
        with 13 [OF Inr True] sm o
        have "replays F (traverseSelections env (Condition c pv sels) rid data st)
                (traverseSelections env (Condition c pv sels) rid data t)"
          by blast
        with Inr True show ?thesis
          by (simp del: traverseSelections.simps)
      next
        case False
        with Inr sm show ?thesis
          by (simp add: replays_Inr)
      qed
    qed
  qed
next
  case (14 env nd ty sels rid data st)
  show ?case
  proof (intro allI impI, rule replaysI)
    fix t s'
    assume sm: "sim F st t" and o: "recordSource st rid \<noteq> None"
      and h: "list_all (held F) (resolvedBySelection env nd (InlineFragment ty sels) rid data st)"
      and a: "traverseSelection env nd (InlineFragment ty sels) rid data st = Inr s'"
      and w: "within F s'"
    from o obtain rs where rs: "recordSource st rid = Some rs"
      by auto
    from within_preserved [OF ok_preserved [OF walker_ok(3) a] w] have ws: "within F st" .
    from sim_record [OF sm ws rs] obtain rt where
      rt: "recordSource t rid = Some rt" "rec_type rt = rec_type rs"
      by blast
    show "\<exists>t'. traverseSelection env nd (InlineFragment ty sels) rid data t = Inr t' \<and> sim F s' t'"
    proof (cases "getType rs = JStr ty")
      case True
      with a rs have a': "traverseSelections env (InlineFragment ty sels) rid data st = Inr s'"
        by (simp del: traverseSelections.simps)
      from h rs True
      have "list_all (held F) (resolvedBySelections env (InlineFragment ty sels) rid data st)"
        by (simp del: resolvedBySelections.simps)
      with 14 [OF rs True] sm o
      have "replays F (traverseSelections env (InlineFragment ty sels) rid data st)
              (traverseSelections env (InlineFragment ty sels) rid data t)"
        by blast
      from replaysD [OF this a' w] rt True show ?thesis
        by (simp add: getType_def del: traverseSelections.simps)
    next
      case False
      with a rs rt sm show ?thesis
        by (simp add: getType_def del: traverseSelections.simps)
    qed
  qed
next
  case (23 env i l sels rid data st)
  show ?case
  proof (intro allI impI)
    fix t
    assume sm: "sim F st t" and o: "recordSource st rid \<noteq> None"
      and h: "list_all (held F) (resolvedByDefer env i l sels rid data st)"
    show "replays F (normalizeDefer env i l sels rid data st)
            (normalizeDefer env i l sels rid data t)"
    proof (cases "ifValue env i")
      case (Inl e)
      then show ?thesis by simp
    next
      case (Inr d)
      show ?thesis
      proof (cases "d = JBool False")
        case True
        from h Inr True
        have "list_all (held F) (resolvedBySelections env (Defer i l sels) rid data st)"
          by (simp del: resolvedBySelections.simps)
        with 23 [OF Inr True] True sm o
        have "replays F (traverseSelections env (Defer i l sels) rid data st)
                (traverseSelections env (Defer i l sels) rid data t)"
          by (simp del: traverseSelections.simps resolvedBySelections.simps)
        with Inr True show ?thesis
          by (simp del: traverseSelections.simps)
      next
        case False
        show ?thesis
        proof (rule replaysI)
          fix s'
          assume a: "normalizeDefer env i l sels rid data st = Inr s'" and w: "within F s'"
          from o obtain rs where rs: "recordSource st rid = Some rs"
            by auto
          from a Inr False rs w have ws: "within F st"
            by (auto simp: within_def warn_def split: if_splits)
          from sim_record [OF sm ws rs] obtain rt where
            rt: "recordSource t rid = Some rt" "rec_id rt = rec_id rs"
            by blast
          from a Inr False rs rt sm
          show "\<exists>t'. normalizeDefer env i l sels rid data t = Inr t' \<and> sim F s' t'"
            by (auto simp: sim_def warn_def incrementalPayload_def getDataID_def)
        qed
      qed
    qed
  qed
next
  case (24 env i l sels rid data st)
  show ?case
    unfolding normalizeStream.simps
  proof (intro allI impI)
    fix t
    assume sm: "sim F st t" and o: "recordSource st rid \<noteq> None"
      and h: "list_all (held F) (resolvedByStream env i l sels rid data st)"
    let ?k = "\<lambda>st1. case ifValue env i of
             Inl e \<Rightarrow> Inl (e, st1)
           | Inr isStreamed \<Rightarrow>
               if isStreamed = JBool True
               then
                 (case recordSource st1 rid of
                    None \<Rightarrow> Inl (DanglingRecord rid, st1)
                  | Some r \<Rightarrow>
                      Inr (st1\<lparr>incrementalPayloads := incrementalPayloads st1 @
                             [incrementalPayload env KStream l (Stream i l sels) r st1]\<rparr>))
               else Inr (if dev env \<and> \<not> is_boolean isStreamed
                         then warn (StreamIfNotBoolean isStreamed) st1 else st1)"
    show "replays F
            (case traverseSelections env (Stream i l sels) rid data st of
               Inl e \<Rightarrow> Inl e | Inr x \<Rightarrow> ?k x)
            (case traverseSelections env (Stream i l sels) rid data t of
               Inl e \<Rightarrow> Inl e | Inr x \<Rightarrow> ?k x)"
    proof (rule replays_bind)
      from h have "list_all (held F) (resolvedBySelections env (Stream i l sels) rid data st)"
        by (simp del: resolvedBySelections.simps)
      with 24 sm o
      show "replays F (traverseSelections env (Stream i l sels) rid data st)
              (traverseSelections env (Stream i l sels) rid data t)"
        by blast
    next
      fix s1 t1
      assume a: "traverseSelections env (Stream i l sels) rid data st = Inr s1" "sim F s1 t1"
      show "replays F (?k s1) (?k t1)"
      proof (rule replaysI)
        fix s'
        assume k: "?k s1 = Inr s'" and w: "within F s'"
        from k w have ws: "within F s1"
          by (auto simp: within_def warn_def split: sum.splits if_splits option.splits)
        from ok_preserved [OF walker_ok(1) a(1)] o obtain rs where
          rs: "recordSource s1 rid = Some rs"
          using preserved_owner by blast
        from sim_record [OF a(2) ws rs] obtain rt where
          rt: "recordSource t1 rid = Some rt" "rec_id rt = rec_id rs"
          by blast
        from k rs rt a(2)
        show "\<exists>t'. ?k t1 = Inr t' \<and> sim F s' t'"
          by (auto simp: sim_def warn_def incrementalPayload_def getDataID_def
              split: sum.splits if_splits)
      qed
    next
      fix s1 s'
      assume "?k s1 = Inr s'"
      then show "preserved s1 s'"
        by (auto simp: preserved_same warn_def split: sum.splits if_splits option.splits)
    qed
  qed
next
  case (25 env parent f rid data st)
  show ?case
  proof (intro allI impI)
    fix t
    assume sm: "sim F st t" and o: "recordSource st rid \<noteq> None"
    from o obtain rs where rs: "recordSource st rid = Some rs"
      by auto
    show "replays F (normalizeField env parent (ScalarField f) rid data st)
            (normalizeField env parent (ScalarField f) rid data t)"
    proof (cases "readField env parent f rid data st")
      case (Done res)
      from readField_Done [OF sm rs Done] Done show ?thesis
        by auto
    next
      case (Value rk sk fv)
      from readField_Value [OF Value, of t] Value sim_setValue [OF sm rs] show ?thesis
        by (simp add: replays_Inr)
    qed
  qed
next
  case (26 env parent f ct pl sels rid data st)
  show ?case
  proof (intro allI impI)
    fix t
    assume sm: "sim F st t" and o: "recordSource st rid \<noteq> None"
      and h: "list_all (held F) (resolvedByField env parent (LinkedField f ct pl sels) rid data st)"
    from o obtain rs where rs: "recordSource st rid = Some rs"
      by auto
    show "replays F (normalizeField env parent (LinkedField f ct pl sels) rid data st)
            (normalizeField env parent (LinkedField f ct pl sels) rid data t)"
    proof (cases "readField env parent f rid data st")
      case (Done res)
      from readField_Done [OF sm rs Done] Done show ?thesis
        by auto
    next
      case (Value rk sk fv)
      note v = readField_Value [OF Value, of t]
      have p: "path t = path st"
        using sm by (rule sim_path_eq)
      have sm1: "sim F (st\<lparr>path := path st @ [rk]\<rparr>) (t\<lparr>path := path st @ [rk]\<rparr>)"
        using sim_push [OF sm, of rk] p by simp
      have o1: "recordSource (st\<lparr>path := path st @ [rk]\<rparr>) rid \<noteq> None"
        using o by simp
      show ?thesis
      proof (cases pl)
        case True
        from h Value True
        have "list_all (held F) (resolvedByPluralLink env (LinkedField f ct pl sels) rid sk fv
                (st\<lparr>path := path st @ [rk]\<rparr>))"
          by (simp del: resolvedByPluralLink.simps)
        with 26(1) [OF Value True] sm1 o1
        have "replays F
          (normalizePluralLink env (LinkedField f ct pl sels) rid sk fv (st\<lparr>path := path st @ [rk]\<rparr>))
          (normalizePluralLink env (LinkedField f ct pl sels) rid sk fv (t\<lparr>path := path st @ [rk]\<rparr>))"
          by blast
        from replays_pop [OF this] Value v True p show ?thesis
          by (simp del: normalizePluralLink.simps)
      next
        case False
        from h Value False
        have "list_all (held F) (resolvedByLink env (LinkedField f ct pl sels) rid sk fv
                (st\<lparr>path := path st @ [rk]\<rparr>))"
          by (simp del: resolvedByLink.simps)
        with 26(2) [OF Value False] sm1 o1
        have "replays F
          (normalizeLink env (LinkedField f ct pl sels) rid sk fv (st\<lparr>path := path st @ [rk]\<rparr>))
          (normalizeLink env (LinkedField f ct pl sels) rid sk fv (t\<lparr>path := path st @ [rk]\<rparr>))"
          by blast
        from replays_pop [OF this] Value v False p show ?thesis
          by (simp del: normalizeLink.simps)
      qed
    qed
  qed
next
  case (28 env field rid sk fv st)
  show ?case
  proof (intro allI impI, rule replaysI)
    fix t s'
    assume sm: "sim F st t" and o: "recordSource st rid \<noteq> None"
      and h: "list_all (held F) (resolvedByLink env field rid sk fv st)"
      and a: "normalizeLink env field rid sk fv st = Inr s'" and w: "within F s'"
    from o obtain rs where rs: "recordSource st rid = Some rs"
      by auto
    from a rs obtain nid s1 where
      ob: "\<not> \<not> is_object fv"
      and nid: "or_id (get_prop fv ''id'') (getLinkedRecordID rs sk)
                  (generateRelayClientID env (getDataID rs) sk None) = JStr nid"
      and l: "lookupOrCreate env field nid fv
                (updateRecord rid (\<lambda>r. setLinkedRecordID r sk nid) st) = Inr s1"
      and tr: "traverseSelections env field nid fv s1 = Inr s'"
      by (auto simp del: traverseSelections.simps split: if_splits json.splits sum.splits)
    from h ob rs nid l
    have h1: "list_all (held F) (resolution rid sk None fv nid)"
      and h2: "list_all (held F) (resolvedBySelections env field nid fv s1)"
      by (simp_all del: resolvedBySelections.simps)
    from within_preserved [OF ok_preserved [OF walker_ok(7) a] w] have ws: "within F st" .
    from within_preserved [OF ok_preserved [OF walker_ok(1) tr] w] have w1: "within F s1" .
    from sim_record [OF sm ws rs] obtain rt where
      rt: "recordSource t rid = Some rt" "rec_id rt = rec_id rs"
      by blast
    have n': "or_id (get_prop fv ''id'') (getLinkedRecordID rt sk)
                  (generateRelayClientID env (getDataID rt) sk None) = JStr nid"
      by (rule link_again [OF sm rs rt nid h1])
    from replaysD [OF replays_lookupOrCreate [OF sim_setLinkedRecordID [OF sm rs]] l w1]
    obtain t1 where t1: "lookupOrCreate env field nid fv
        (updateRecord rid (\<lambda>r. setLinkedRecordID r sk nid) t) = Inr t1" "sim F s1 t1"
      by blast
    from 28 [OF ob rs nid l] t1(2) lookupOrCreate_exists [OF l] h2
    have "replays F (traverseSelections env field nid fv s1) (traverseSelections env field nid fv t1)"
      by blast
    from replaysD [OF this tr w] obtain t' where
      "traverseSelections env field nid fv t1 = Inr t'" "sim F s' t'"
      by blast
    with ob rt(1) n' t1(1)
    show "\<exists>t'. normalizeLink env field rid sk fv t = Inr t' \<and> sim F s' t'"
      by (simp del: traverseSelections.simps)
  qed
next
  case (29 env field rid sk fv st)
  show ?case
  proof (intro allI impI, rule replaysI)
    fix t s'
    assume sm: "sim F st t" and o: "recordSource st rid \<noteq> None"
      and h: "list_all (held F) (resolvedByPluralLink env field rid sk fv st)"
      and a: "normalizePluralLink env field rid sk fv st = Inr s'" and w: "within F s'"
    from o obtain rs where rs: "recordSource st rid = Some rs"
      by auto
    from a rs obtain items ids s1 where
      fv: "as_array fv = Some items"
      and f: "forEachItem env field rid sk (getLinkedRecordIDs rs sk) items 0 [] st = Inr (ids, s1)"
      and s': "s' = updateRecord rid (\<lambda>r. setLinkedRecordIDs r sk ids) s1"
      by (auto split: option.splits sum.splits)
    from h fv rs
    have h1: "list_all (held F)
        (resolvedByEachItem env field rid sk (getLinkedRecordIDs rs sk) items 0 [] st)"
      by simp
    from within_preserved [OF ok_preserved [OF walker_ok(8) a] w] have ws: "within F st" .
    from within_preserved [OF preserved_setLinkedRecordIDs w [unfolded s']] have w1: "within F s1" .
    from sim_record [OF sm ws rs] obtain rt where rt: "recordSource t rid = Some rt"
      by blast
    from 29 [OF fv rs] sm o h1 list_links_again [OF sm rs rt, of sk]
    have "replays_items F
            (forEachItem env field rid sk (getLinkedRecordIDs rs sk) items 0 [] st)
            (forEachItem env field rid sk (getLinkedRecordIDs rt sk) items 0 [] t)"
      by blast
    with f w1 obtain t1 where
      t1: "forEachItem env field rid sk (getLinkedRecordIDs rt sk) items 0 [] t = Inr (ids, t1)"
        "sim F s1 t1"
      unfolding replays_items_def by blast
    from ok_items_preserved [OF walker_ok(9) f] rs obtain r1 where
      r1: "recordSource s1 rid = Some r1"
      using preserved_record by blast
    from sim_setLinkedRecordIDs [OF t1(2) r1] fv rt t1(1) s'
    show "\<exists>t'. normalizePluralLink env field rid sk fv t = Inr t' \<and> sim F s' t'"
      by simp
  qed
next
  case (30 env field rid sk prevIDs nextIndex nextIDs st)
  show ?case
    by (simp add: replays_items_def)
next
  case (31 env field rid sk prevIDs item rest nextIndex nextIDs st)
  show ?case
    unfolding replays_items_def
  proof (intro allI impI)
    fix t prev' ids s'
    assume sm: "sim F st t" and o: "recordSource st rid \<noteq> None"
      and pv: "prev' = prevIDs \<or> (\<exists>rF. F rid = Some rF \<and> prev' = getLinkedRecordIDs rF sk)"
      and h: "list_all (held F)
                (resolvedByEachItem env field rid sk prevIDs (item # rest) nextIndex nextIDs st)"
      and a: "forEachItem env field rid sk prevIDs (item # rest) nextIndex nextIDs st = Inr (ids, s')"
      and w: "within F s'"
    show "\<exists>t'. forEachItem env field rid sk prev' (item # rest) nextIndex nextIDs t = Inr (ids, t') \<and>
               sim F s' t'"
    proof (cases "item = JNull")
      case True
      with a have a': "forEachItem env field rid sk prevIDs rest (Suc nextIndex)
                         (nextIDs @ [None]) st = Inr (ids, s')"
        by simp
      from h True
      have "list_all (held F)
          (resolvedByEachItem env field rid sk prevIDs rest (Suc nextIndex) (nextIDs @ [None]) st)"
        by simp
      with 31(1) [OF True] sm o pv
      have "replays_items F
              (forEachItem env field rid sk prevIDs rest (Suc nextIndex) (nextIDs @ [None]) st)
              (forEachItem env field rid sk prev' rest (Suc nextIndex) (nextIDs @ [None]) t)"
        by blast
      with a' w True show ?thesis
        unfolding replays_items_def by simp
    next
      case False
      from o obtain rs where rs: "recordSource st rid = Some rs"
        by auto
      let ?st0 = "st\<lparr>path := path st @ [string_of_nat nextIndex]\<rparr>"
      let ?t0 = "t\<lparr>path := path t @ [string_of_nat nextIndex]\<rparr>"
      from a False rs obtain nid s1 s2 where
        ob: "\<not> \<not> is_object item"
        and nid: "or_id (get_prop item ''id'') (prev_at prevIDs nextIndex)
                    (generateRelayClientID env (getDataID rs) sk (Some nextIndex)) = JStr nid"
        and l: "lookupOrCreate env field nid item ?st0 = Inr s1"
        and tr: "traverseSelections env field nid item s1 = Inr s2"
        and f: "forEachItem env field rid sk prevIDs rest (Suc nextIndex) (nextIDs @ [Some nid])
                  (s2\<lparr>path := butlast (path s2)\<rparr>) = Inr (ids, s')"
        by (auto simp del: traverseSelections.simps split: if_splits json.splits sum.splits)
      from h False ob rs nid l tr
      have h1: "list_all (held F) (resolution rid sk (Some nextIndex) item nid)"
        and h2: "list_all (held F) (resolvedBySelections env field nid item s1)"
        and h3: "list_all (held F)
            (resolvedByEachItem env field rid sk prevIDs rest (Suc nextIndex)
               (nextIDs @ [Some nid]) (s2\<lparr>path := butlast (path s2)\<rparr>))"
        by (simp_all del: resolvedBySelections.simps)
      from within_preserved [OF ok_items_preserved [OF walker_ok(9) f] w]
      have w2: "within F s2"
        by simp
      from within_preserved [OF ok_preserved [OF walker_ok(1) tr] w2] have w1: "within F s1" .
      from within_preserved [OF ok_preserved [OF ok_lookupOrCreate l] w1] have ws: "within F st"
        by simp
      from sim_record [OF sm ws rs] obtain rt where
        rt: "recordSource t rid = Some rt" "rec_id rt = rec_id rs"
        by blast
      from item_again [OF nid h1 pv] rt(2)
      have n': "or_id (get_prop item ''id'') (prev_at prev' nextIndex)
                    (generateRelayClientID env (getDataID rt) sk (Some nextIndex)) = JStr nid"
        by (simp add: getDataID_def)
      from replaysD [OF replays_lookupOrCreate [OF sim_push [OF sm]] l w1]
      obtain t1 where t1: "lookupOrCreate env field nid item ?t0 = Inr t1" "sim F s1 t1"
        by blast
      from 31(2) [OF False ob rs nid l] t1(2) lookupOrCreate_exists [OF l] h2
      have "replays F (traverseSelections env field nid item s1)
              (traverseSelections env field nid item t1)"
        by blast
      from replaysD [OF this tr w2] obtain t2 where
        t2: "traverseSelections env field nid item t1 = Inr t2" "sim F s2 t2"
        by blast
      have p1: "preserved st s1"
        using ok_preserved [OF ok_lookupOrCreate l] by simp
      have p2: "preserved s1 s2"
        by (rule ok_preserved [OF walker_ok(1) tr])
      from preserved_owner [OF preserved_trans [OF p1 p2] o]
      have o2: "recordSource (s2\<lparr>path := butlast (path s2)\<rparr>) rid \<noteq> None"
        by simp
      from 31(3) [OF False ob rs nid l tr] sim_pop [OF t2(2)] o2 pv h3
      have "replays_items F
              (forEachItem env field rid sk prevIDs rest (Suc nextIndex) (nextIDs @ [Some nid])
                 (s2\<lparr>path := butlast (path s2)\<rparr>))
              (forEachItem env field rid sk prev' rest (Suc nextIndex) (nextIDs @ [Some nid])
                 (t2\<lparr>path := butlast (path t2)\<rparr>))"
        by blast
      with f w obtain t' where
        "forEachItem env field rid sk prev' rest (Suc nextIndex) (nextIDs @ [Some nid])
           (t2\<lparr>path := butlast (path t2)\<rparr>) = Inr (ids, t')" "sim F s' t'"
        unfolding replays_items_def by blast
      with False ob rt(1) n' t1(1) t2(1) show ?thesis
        by (simp del: traverseSelections.simps)
    qed
  qed
qed (simp_all add: replays_handleField)

lemma sim_final:
  assumes "sim F s t" "recordSource s = F"
  shows "recordSource t = F"
proof
  fix x
  show "recordSource t x = F x"
  proof (cases "recordSource t x")
    case None
    with assms(1) show ?thesis
      by (simp add: sim_def)
  next
    case (Some rt)
    with assms(1) obtain rF where rF: "F x = Some rF" "rec_id rt = rec_id rF"
      "rec_type rt = rec_type rF"
      "\<forall>k. rec_fields rt k = rec_fields rF k \<or>
           (\<exists>rs. recordSource s x = Some rs \<and> rec_fields rt k = rec_fields rs k)"
      unfolding sim_def by blast
    from rF(1,4) assms(2) have "rec_fields rt = rec_fields rF"
      by auto
    with rF(2,3) have "rt = rF"
      by simp
    with Some rF(1) show ?thesis
      by simp
  qed
qed


lemma resolvedByMatchField_again:
  assumes sm: "sim F s t" and rs: "recordSource s rid = Some rs"
    and h: "list_all (held F) (resolvedByMatchField env parent f tbl rid data s)"
    and a: "normalizeMatchField env parent f tbl rid data s = Inr s'" and w: "within F s'"
  shows "resolvedByMatchField env parent f tbl rid data t =
         resolvedByMatchField env parent f tbl rid data s"
proof (cases "readField env parent f rid data s")
  case (Done res)
  from readField_Done [OF sm rs Done] Done show ?thesis
    by (auto simp: resolvedByMatchField_def)
next
  case (Value rk sk fv)
  note v = readField_Value [OF Value, of t]
  from ok_normalizeMatchField [of s env parent f tbl rid data] a have "preserved s s'"
    by (rule ok_preserved)
  then have ws: "within F s"
    using w by (rule within_preserved)
  from sim_record [OF sm ws rs] obtain rt where
    rt: "recordSource t rid = Some rt" "rec_id rt = rec_id rs"
    by blast
  from a Value obtain T key where
    o: "is_object fv" and T: "getRecordType env fv = Inr T" "to_key T = Some key"
    by (auto simp: normalizeMatchField_def split: if_splits sum.splits option.splits)
  show ?thesis
  proof (cases "lookupMatch tbl key = None \<or> lookupMatch tbl key = Some JNull")
    case True
    with Value v o T show ?thesis
      by (simp add: resolvedByMatchField_def)
  next
    case False
    then have nn: "lookupMatch tbl key \<noteq> None" "lookupMatch tbl key \<noteq> Some JNull"
      by simp_all
    from a Value o T nn rs obtain nid where
      nid: "or_id (get_prop fv ''id'') (getLinkedRecordID rs sk)
              (generateRelayClientID env (getDataID rs) sk None) = JStr nid"
      by (auto simp: normalizeMatchField_def split: json.splits sum.splits)
    from h Value o T nn rs nid
    have "list_all (held F) (resolution rid sk None fv nid)"
      by (simp add: resolvedByMatchField_def)
    from link_again [OF sm rs rt nid this]
    have n: "or_id (get_prop fv ''id'') (getLinkedRecordID rt sk)
                (generateRelayClientID env (getDataID rt) sk None) = JStr nid" .
    with Value v o T nn rs rt nid show ?thesis
      by (auto simp: resolvedByMatchField_def)
  qed
qed

lemma walker_resolved:
  "\<forall>t s'. sim F s t \<longrightarrow> recordSource s rid \<noteq> None \<longrightarrow>
       list_all (held F) (resolvedBySelections env nd rid data s) \<longrightarrow>
       traverseSelections env nd rid data s = Inr s' \<longrightarrow> within F s' \<longrightarrow>
       resolvedBySelections env nd rid data t = resolvedBySelections env nd rid data s"
  "\<forall>t s'. sim F s t \<longrightarrow> recordSource s rid \<noteq> None \<longrightarrow>
       list_all (held F) (resolvedByEachSelection env nd sels rid data s) \<longrightarrow>
       forEachSelection env nd sels rid data s = Inr s' \<longrightarrow> within F s' \<longrightarrow>
       resolvedByEachSelection env nd sels rid data t =
       resolvedByEachSelection env nd sels rid data s"
  "\<forall>t s'. sim F s t \<longrightarrow> recordSource s rid \<noteq> None \<longrightarrow>
       list_all (held F) (resolvedBySelection env nd sel rid data s) \<longrightarrow>
       traverseSelection env nd sel rid data s = Inr s' \<longrightarrow> within F s' \<longrightarrow>
       resolvedBySelection env nd sel rid data t = resolvedBySelection env nd sel rid data s"
  "\<forall>t s'. sim F s t \<longrightarrow> recordSource s rid \<noteq> None \<longrightarrow>
       list_all (held F) (resolvedByDefer env i l sels rid data s) \<longrightarrow>
       normalizeDefer env i l sels rid data s = Inr s' \<longrightarrow> within F s' \<longrightarrow>
       resolvedByDefer env i l sels rid data t = resolvedByDefer env i l sels rid data s"
  "\<forall>t s'. sim F s t \<longrightarrow> recordSource s rid \<noteq> None \<longrightarrow>
       list_all (held F) (resolvedByStream env i l sels rid data s) \<longrightarrow>
       normalizeStream env i l sels rid data s = Inr s' \<longrightarrow> within F s' \<longrightarrow>
       resolvedByStream env i l sels rid data t = resolvedByStream env i l sels rid data s"
  "\<forall>t s'. sim F s t \<longrightarrow> recordSource s rid \<noteq> None \<longrightarrow>
       list_all (held F) (resolvedByField env parent sel rid data s) \<longrightarrow>
       normalizeField env parent sel rid data s = Inr s' \<longrightarrow> within F s' \<longrightarrow>
       resolvedByField env parent sel rid data t = resolvedByField env parent sel rid data s"
  "\<forall>t s'. sim F s t \<longrightarrow> recordSource s rid \<noteq> None \<longrightarrow>
       list_all (held F) (resolvedByLink env fld rid sk fv s) \<longrightarrow>
       normalizeLink env fld rid sk fv s = Inr s' \<longrightarrow> within F s' \<longrightarrow>
       resolvedByLink env fld rid sk fv t = resolvedByLink env fld rid sk fv s"
  "\<forall>t s'. sim F s t \<longrightarrow> recordSource s rid \<noteq> None \<longrightarrow>
       list_all (held F) (resolvedByPluralLink env fld rid sk fv s) \<longrightarrow>
       normalizePluralLink env fld rid sk fv s = Inr s' \<longrightarrow> within F s' \<longrightarrow>
       resolvedByPluralLink env fld rid sk fv t = resolvedByPluralLink env fld rid sk fv s"
  "\<forall>t prev' ids' s'. sim F s t \<longrightarrow> recordSource s rid \<noteq> None \<longrightarrow>
       (prev' = prev \<or> (\<exists>rF. F rid = Some rF \<and> prev' = getLinkedRecordIDs rF sk)) \<longrightarrow>
       list_all (held F) (resolvedByEachItem env fld rid sk prev items idx ids s) \<longrightarrow>
       forEachItem env fld rid sk prev items idx ids s = Inr (ids', s') \<longrightarrow> within F s' \<longrightarrow>
       resolvedByEachItem env fld rid sk prev' items idx ids t =
       resolvedByEachItem env fld rid sk prev items idx ids s"
proof (induct env nd rid data s and env nd sels rid data s and env nd sel rid data s
    and env i l sels rid data s and env i l sels rid data s and env parent sel rid data s
    and env fld rid sk fv s and env fld rid sk fv s and env fld rid sk prev items idx ids s
    rule: walker_induct)
  case (17 env nd f matchesByType rid data st)
  show ?case
    by (auto intro!: resolvedByMatchField_again)
next
  case (10 env nd selection rest rid data st)
  show ?case
  proof (intro allI impI)
    fix t s'
    assume sm: "sim F st t" and o: "recordSource st rid \<noteq> None"
      and h: "list_all (held F) (resolvedByEachSelection env nd (selection # rest) rid data st)"
      and a: "forEachSelection env nd (selection # rest) rid data st = Inr s'"
      and w: "within F s'"
    from a obtain s1 where
      a1: "traverseSelection env nd selection rid data st = Inr s1"
      and a2: "forEachSelection env nd rest rid data s1 = Inr s'"
      by (auto simp del: traverseSelection.simps split: sum.splits)
    from h have h1: "list_all (held F) (resolvedBySelection env nd selection rid data st)"
      by simp
    from h a1 have h2: "list_all (held F) (resolvedByEachSelection env nd rest rid data s1)"
      by simp
    from within_preserved [OF ok_preserved [OF walker_ok(2) a2] w] have w1: "within F s1" .
    from walker_replays(3) [of F st rid env nd selection data] sm o h1
    have "replays F (traverseSelection env nd selection rid data st)
            (traverseSelection env nd selection rid data t)"
      by blast
    from replaysD [OF this a1 w1] obtain t1 where
      t1: "traverseSelection env nd selection rid data t = Inr t1" "sim F s1 t1"
      by blast
    from ok_preserved [OF walker_ok(3) a1] o have o1: "recordSource s1 rid \<noteq> None"
      by (rule preserved_owner)
    from 10(1) sm o h1 a1 w1
    have "resolvedBySelection env nd selection rid data t =
          resolvedBySelection env nd selection rid data st"
      by blast
    moreover from 10(2) [OF a1] t1(2) o1 h2 a2 w
    have "resolvedByEachSelection env nd rest rid data t1 =
          resolvedByEachSelection env nd rest rid data s1"
      by blast
    ultimately show "resolvedByEachSelection env nd (selection # rest) rid data t =
        resolvedByEachSelection env nd (selection # rest) rid data st"
      using a1 t1(1) by (simp del: resolvedBySelection.simps traverseSelection.simps)
  qed
next
  case (13 env nd c pv sels rid data st)
  show ?case
  proof (intro allI impI)
    fix t s'
    assume sm: "sim F st t" and o: "recordSource st rid \<noteq> None"
      and h: "list_all (held F) (resolvedBySelection env nd (Condition c pv sels) rid data st)"
      and a: "traverseSelection env nd (Condition c pv sels) rid data st = Inr s'"
      and w: "within F s'"
    from a obtain v where v: "getVariableValue env c = Inr v"
      by (auto split: sum.splits)
    show "resolvedBySelection env nd (Condition c pv sels) rid data t =
          resolvedBySelection env nd (Condition c pv sels) rid data st"
    proof (cases "v = JBool pv")
      case True
      from h v True
      have "list_all (held F) (resolvedBySelections env (Condition c pv sels) rid data st)"
        by (simp del: resolvedBySelections.simps)
      moreover from a v True
      have "traverseSelections env (Condition c pv sels) rid data st = Inr s'"
        by (simp del: traverseSelections.simps)
      ultimately have "resolvedBySelections env (Condition c pv sels) rid data t =
          resolvedBySelections env (Condition c pv sels) rid data st"
        using 13 [OF v True] sm o w by blast
      with v True show ?thesis
        by (simp del: resolvedBySelections.simps)
    next
      case False
      with v show ?thesis
        by simp
    qed
  qed
next
  case (14 env nd ty sels rid data st)
  show ?case
  proof (intro allI impI)
    fix t s'
    assume sm: "sim F st t" and o: "recordSource st rid \<noteq> None"
      and h: "list_all (held F) (resolvedBySelection env nd (InlineFragment ty sels) rid data st)"
      and a: "traverseSelection env nd (InlineFragment ty sels) rid data st = Inr s'"
      and w: "within F s'"
    from o obtain rs where rs: "recordSource st rid = Some rs"
      by auto
    from within_preserved [OF ok_preserved [OF walker_ok(3) a] w] have ws: "within F st" .
    from sim_record [OF sm ws rs] obtain rt where
      rt: "recordSource t rid = Some rt" "rec_type rt = rec_type rs"
      by blast
    show "resolvedBySelection env nd (InlineFragment ty sels) rid data t =
          resolvedBySelection env nd (InlineFragment ty sels) rid data st"
    proof (cases "getType rs = JStr ty")
      case True
      from h rs True
      have "list_all (held F) (resolvedBySelections env (InlineFragment ty sels) rid data st)"
        by (simp del: resolvedBySelections.simps)
      moreover from a rs True
      have "traverseSelections env (InlineFragment ty sels) rid data st = Inr s'"
        by (simp del: traverseSelections.simps)
      ultimately have "resolvedBySelections env (InlineFragment ty sels) rid data t =
          resolvedBySelections env (InlineFragment ty sels) rid data st"
        using 14 [OF rs True] sm o w by blast
      with rs rt True show ?thesis
        by (simp add: getType_def del: resolvedBySelections.simps)
    next
      case False
      with rs rt show ?thesis
        by (simp add: getType_def)
    qed
  qed
next
  case (23 env i l sels rid data st)
  show ?case
  proof (intro allI impI)
    fix t s'
    assume sm: "sim F st t" and o: "recordSource st rid \<noteq> None"
      and h: "list_all (held F) (resolvedByDefer env i l sels rid data st)"
      and a: "normalizeDefer env i l sels rid data st = Inr s'"
      and w: "within F s'"
    from a obtain d where d: "ifValue env i = Inr d"
      by (auto split: sum.splits)
    show "resolvedByDefer env i l sels rid data t = resolvedByDefer env i l sels rid data st"
    proof (cases "d = JBool False")
      case True
      from h d True
      have "list_all (held F) (resolvedBySelections env (Defer i l sels) rid data st)"
        by (simp del: resolvedBySelections.simps)
      moreover from a d True
      have "traverseSelections env (Defer i l sels) rid data st = Inr s'"
        by (simp del: traverseSelections.simps)
      ultimately have "resolvedBySelections env (Defer i l sels) rid data t =
          resolvedBySelections env (Defer i l sels) rid data st"
        using 23 [OF d True] True sm o w
        by (simp del: traverseSelections.simps resolvedBySelections.simps)
      with d True show ?thesis
        by (simp del: resolvedBySelections.simps)
    next
      case False
      with d show ?thesis
        by simp
    qed
  qed
next
  case (24 env i l sels rid data st)
  show ?case
  proof (intro allI impI)
    fix t s'
    assume sm: "sim F st t" and o: "recordSource st rid \<noteq> None"
      and h: "list_all (held F) (resolvedByStream env i l sels rid data st)"
      and a: "normalizeStream env i l sels rid data st = Inr s'"
      and w: "within F s'"
    from a obtain s1 where
      a1: "traverseSelections env (Stream i l sels) rid data st = Inr s1"
      by (auto simp del: traverseSelections.simps split: sum.splits)
    from ok_preserved [OF walker_ok(5) a] ok_preserved [OF walker_ok(1) a1]
    have "preserved s1 s'"
      using a a1
      by (auto simp del: traverseSelections.simps simp: preserved_def warn_def
          split: sum.splits if_splits option.splits)
    from within_preserved [OF this w] have w1: "within F s1" .
    from h have "list_all (held F) (resolvedBySelections env (Stream i l sels) rid data st)"
      by (simp del: resolvedBySelections.simps)
    with 24 sm o a1 w1
    have "resolvedBySelections env (Stream i l sels) rid data t =
          resolvedBySelections env (Stream i l sels) rid data st"
      by blast
    then show "resolvedByStream env i l sels rid data t = resolvedByStream env i l sels rid data st"
      by (simp del: resolvedBySelections.simps)
  qed
next
  case (26 env parent f ct pl sels rid data st)
  show ?case
  proof (intro allI impI)
    fix t s'
    assume sm: "sim F st t" and o: "recordSource st rid \<noteq> None"
      and h: "list_all (held F) (resolvedByField env parent (LinkedField f ct pl sels) rid data st)"
      and a: "normalizeField env parent (LinkedField f ct pl sels) rid data st = Inr s'"
      and w: "within F s'"
    from o obtain rs where rs: "recordSource st rid = Some rs"
      by auto
    show "resolvedByField env parent (LinkedField f ct pl sels) rid data t =
          resolvedByField env parent (LinkedField f ct pl sels) rid data st"
    proof (cases "readField env parent f rid data st")
      case (Done res)
      from readField_Done [OF sm rs Done] Done show ?thesis
        by auto
    next
      case (Value rk sk fv)
      note v = readField_Value [OF Value, of t]
      have p: "path t = path st"
        using sm by (rule sim_path_eq)
      have sm1: "sim F (st\<lparr>path := path st @ [rk]\<rparr>) (t\<lparr>path := path st @ [rk]\<rparr>)"
        using sim_push [OF sm, of rk] p by simp
      have o1: "recordSource (st\<lparr>path := path st @ [rk]\<rparr>) rid \<noteq> None"
        using o by simp
      show ?thesis
      proof (cases pl)
        case True
        from a Value True obtain s1 where
          a1: "normalizePluralLink env (LinkedField f ct pl sels) rid sk fv
                 (st\<lparr>path := path st @ [rk]\<rparr>) = Inr s1"
          and s': "s' = s1\<lparr>path := butlast (path s1)\<rparr>"
          by (auto simp del: normalizePluralLink.simps split: sum.splits)
        from w s' have w1: "within F s1"
          by simp
        from h Value True
        have "list_all (held F) (resolvedByPluralLink env (LinkedField f ct pl sels) rid sk fv
                (st\<lparr>path := path st @ [rk]\<rparr>))"
          by (simp del: resolvedByPluralLink.simps)
        with 26(1) [OF Value True] sm1 o1 a1 w1
        have "resolvedByPluralLink env (LinkedField f ct pl sels) rid sk fv
                (t\<lparr>path := path st @ [rk]\<rparr>) =
              resolvedByPluralLink env (LinkedField f ct pl sels) rid sk fv
                (st\<lparr>path := path st @ [rk]\<rparr>)"
          by blast
        with Value v True p show ?thesis
          by (simp del: resolvedByPluralLink.simps)
      next
        case False
        from a Value False obtain s1 where
          a1: "normalizeLink env (LinkedField f ct pl sels) rid sk fv
                 (st\<lparr>path := path st @ [rk]\<rparr>) = Inr s1"
          and s': "s' = s1\<lparr>path := butlast (path s1)\<rparr>"
          by (auto simp del: normalizeLink.simps split: sum.splits)
        from w s' have w1: "within F s1"
          by simp
        from h Value False
        have "list_all (held F) (resolvedByLink env (LinkedField f ct pl sels) rid sk fv
                (st\<lparr>path := path st @ [rk]\<rparr>))"
          by (simp del: resolvedByLink.simps)
        with 26(2) [OF Value False] sm1 o1 a1 w1
        have "resolvedByLink env (LinkedField f ct pl sels) rid sk fv
                (t\<lparr>path := path st @ [rk]\<rparr>) =
              resolvedByLink env (LinkedField f ct pl sels) rid sk fv
                (st\<lparr>path := path st @ [rk]\<rparr>)"
          by blast
        with Value v False p show ?thesis
          by (simp del: resolvedByLink.simps)
      qed
    qed
  qed
next
  case (28 env field rid sk fv st)
  show ?case
  proof (intro allI impI)
    fix t s'
    assume sm: "sim F st t" and o: "recordSource st rid \<noteq> None"
      and h: "list_all (held F) (resolvedByLink env field rid sk fv st)"
      and a: "normalizeLink env field rid sk fv st = Inr s'" and w: "within F s'"
    from o obtain rs where rs: "recordSource st rid = Some rs"
      by auto
    from a rs obtain nid s1 where
      ob: "\<not> \<not> is_object fv"
      and nid: "or_id (get_prop fv ''id'') (getLinkedRecordID rs sk)
                  (generateRelayClientID env (getDataID rs) sk None) = JStr nid"
      and l: "lookupOrCreate env field nid fv
                (updateRecord rid (\<lambda>r. setLinkedRecordID r sk nid) st) = Inr s1"
      and tr: "traverseSelections env field nid fv s1 = Inr s'"
      by (auto simp del: traverseSelections.simps split: if_splits json.splits sum.splits)
    from h ob rs nid l
    have h1: "list_all (held F) (resolution rid sk None fv nid)"
      and h2: "list_all (held F) (resolvedBySelections env field nid fv s1)"
      by (simp_all del: resolvedBySelections.simps)
    from within_preserved [OF ok_preserved [OF walker_ok(7) a] w] have ws: "within F st" .
    from within_preserved [OF ok_preserved [OF walker_ok(1) tr] w] have w1: "within F s1" .
    from sim_record [OF sm ws rs] obtain rt where
      rt: "recordSource t rid = Some rt" "rec_id rt = rec_id rs"
      by blast
    have n': "or_id (get_prop fv ''id'') (getLinkedRecordID rt sk)
                  (generateRelayClientID env (getDataID rt) sk None) = JStr nid"
      by (rule link_again [OF sm rs rt nid h1])
    from replaysD [OF replays_lookupOrCreate [OF sim_setLinkedRecordID [OF sm rs]] l w1]
    obtain t1 where t1: "lookupOrCreate env field nid fv
        (updateRecord rid (\<lambda>r. setLinkedRecordID r sk nid) t) = Inr t1" "sim F s1 t1"
      by blast
    from 28 [OF ob rs nid l] t1(2) lookupOrCreate_exists [OF l] h2 tr w
    have "resolvedBySelections env field nid fv t1 = resolvedBySelections env field nid fv s1"
      by blast
    with ob rs rt(1) nid n' l t1(1)
    show "resolvedByLink env field rid sk fv t = resolvedByLink env field rid sk fv st"
      by (simp del: resolvedBySelections.simps)
  qed
next
  case (29 env field rid sk fv st)
  show ?case
  proof (intro allI impI)
    fix t s'
    assume sm: "sim F st t" and o: "recordSource st rid \<noteq> None"
      and h: "list_all (held F) (resolvedByPluralLink env field rid sk fv st)"
      and a: "normalizePluralLink env field rid sk fv st = Inr s'" and w: "within F s'"
    from o obtain rs where rs: "recordSource st rid = Some rs"
      by auto
    from a rs obtain items ids s1 where
      fv: "as_array fv = Some items"
      and f: "forEachItem env field rid sk (getLinkedRecordIDs rs sk) items 0 [] st = Inr (ids, s1)"
      and s': "s' = updateRecord rid (\<lambda>r. setLinkedRecordIDs r sk ids) s1"
      by (auto split: option.splits sum.splits)
    from h fv rs
    have h1: "list_all (held F)
        (resolvedByEachItem env field rid sk (getLinkedRecordIDs rs sk) items 0 [] st)"
      by simp
    from within_preserved [OF ok_preserved [OF walker_ok(8) a] w] have ws: "within F st" .
    from within_preserved [OF preserved_setLinkedRecordIDs w [unfolded s']] have w1: "within F s1" .
    from sim_record [OF sm ws rs] obtain rt where rt: "recordSource t rid = Some rt"
      by blast
    from 29 [OF fv rs] sm o h1 list_links_again [OF sm rs rt, of sk] f w1
    have "resolvedByEachItem env field rid sk (getLinkedRecordIDs rt sk) items 0 [] t =
          resolvedByEachItem env field rid sk (getLinkedRecordIDs rs sk) items 0 [] st"
      by blast
    with fv rs rt
    show "resolvedByPluralLink env field rid sk fv t = resolvedByPluralLink env field rid sk fv st"
      by simp
  qed
next
  case (31 env field rid sk prevIDs item rest nextIndex nextIDs st)
  show ?case
  proof (intro allI impI)
    fix t prev' ids s'
    assume sm: "sim F st t" and o: "recordSource st rid \<noteq> None"
      and pv: "prev' = prevIDs \<or> (\<exists>rF. F rid = Some rF \<and> prev' = getLinkedRecordIDs rF sk)"
      and h: "list_all (held F)
                (resolvedByEachItem env field rid sk prevIDs (item # rest) nextIndex nextIDs st)"
      and a: "forEachItem env field rid sk prevIDs (item # rest) nextIndex nextIDs st = Inr (ids, s')"
      and w: "within F s'"
    show "resolvedByEachItem env field rid sk prev' (item # rest) nextIndex nextIDs t =
          resolvedByEachItem env field rid sk prevIDs (item # rest) nextIndex nextIDs st"
    proof (cases "item = JNull")
      case True
      with a have a': "forEachItem env field rid sk prevIDs rest (Suc nextIndex)
                         (nextIDs @ [None]) st = Inr (ids, s')"
        by simp
      from h True
      have "list_all (held F)
          (resolvedByEachItem env field rid sk prevIDs rest (Suc nextIndex) (nextIDs @ [None]) st)"
        by simp
      with 31(1) [OF True] sm o pv a' w
      have "resolvedByEachItem env field rid sk prev' rest (Suc nextIndex) (nextIDs @ [None]) t =
            resolvedByEachItem env field rid sk prevIDs rest (Suc nextIndex) (nextIDs @ [None]) st"
        by blast
      with True show ?thesis
        by simp
    next
      case False
      from o obtain rs where rs: "recordSource st rid = Some rs"
        by auto
      let ?st0 = "st\<lparr>path := path st @ [string_of_nat nextIndex]\<rparr>"
      let ?t0 = "t\<lparr>path := path t @ [string_of_nat nextIndex]\<rparr>"
      from a False rs obtain nid s1 s2 where
        ob: "\<not> \<not> is_object item"
        and nid: "or_id (get_prop item ''id'') (prev_at prevIDs nextIndex)
                    (generateRelayClientID env (getDataID rs) sk (Some nextIndex)) = JStr nid"
        and l: "lookupOrCreate env field nid item ?st0 = Inr s1"
        and tr: "traverseSelections env field nid item s1 = Inr s2"
        and f: "forEachItem env field rid sk prevIDs rest (Suc nextIndex) (nextIDs @ [Some nid])
                  (s2\<lparr>path := butlast (path s2)\<rparr>) = Inr (ids, s')"
        by (auto simp del: traverseSelections.simps split: if_splits json.splits sum.splits)
      from h False ob rs nid l tr
      have h1: "list_all (held F) (resolution rid sk (Some nextIndex) item nid)"
        and h2: "list_all (held F) (resolvedBySelections env field nid item s1)"
        and h3: "list_all (held F)
            (resolvedByEachItem env field rid sk prevIDs rest (Suc nextIndex)
               (nextIDs @ [Some nid]) (s2\<lparr>path := butlast (path s2)\<rparr>))"
        by (simp_all del: resolvedBySelections.simps)
      from within_preserved [OF ok_items_preserved [OF walker_ok(9) f] w]
      have w2: "within F s2"
        by simp
      from within_preserved [OF ok_preserved [OF walker_ok(1) tr] w2] have w1: "within F s1" .
      from within_preserved [OF ok_preserved [OF ok_lookupOrCreate l] w1] have ws: "within F st"
        by simp
      from sim_record [OF sm ws rs] obtain rt where
        rt: "recordSource t rid = Some rt" "rec_id rt = rec_id rs"
        by blast
      from item_again [OF nid h1 pv] rt(2)
      have n': "or_id (get_prop item ''id'') (prev_at prev' nextIndex)
                    (generateRelayClientID env (getDataID rt) sk (Some nextIndex)) = JStr nid"
        by (simp add: getDataID_def)
      from replaysD [OF replays_lookupOrCreate [OF sim_push [OF sm]] l w1]
      obtain t1 where t1: "lookupOrCreate env field nid item ?t0 = Inr t1" "sim F s1 t1"
        by blast
      from walker_replays(1) [of F s1 nid env field item] t1(2) lookupOrCreate_exists [OF l] h2
      have "replays F (traverseSelections env field nid item s1)
              (traverseSelections env field nid item t1)"
        by blast
      from replaysD [OF this tr w2] obtain t2 where
        t2: "traverseSelections env field nid item t1 = Inr t2" "sim F s2 t2"
        by blast
      from 31(2) [OF False ob rs nid l] t1(2) lookupOrCreate_exists [OF l] h2 tr w2
      have e1: "resolvedBySelections env field nid item t1 =
                resolvedBySelections env field nid item s1"
        by blast
      have p1: "preserved st s1"
        using ok_preserved [OF ok_lookupOrCreate l] by simp
      have p2: "preserved s1 s2"
        by (rule ok_preserved [OF walker_ok(1) tr])
      from preserved_owner [OF preserved_trans [OF p1 p2] o]
      have o2: "recordSource (s2\<lparr>path := butlast (path s2)\<rparr>) rid \<noteq> None"
        by simp
      from 31(3) [OF False ob rs nid l tr] sim_pop [OF t2(2)] o2 pv h3 f w
      have e2: "resolvedByEachItem env field rid sk prev' rest (Suc nextIndex)
                  (nextIDs @ [Some nid]) (t2\<lparr>path := butlast (path t2)\<rparr>) =
                resolvedByEachItem env field rid sk prevIDs rest (Suc nextIndex)
                  (nextIDs @ [Some nid]) (s2\<lparr>path := butlast (path s2)\<rparr>)"
        by blast
      from False ob rs rt(1) nid n' l t1(1) tr t2(1) e1 e2 show ?thesis
        by (simp del: traverseSelections.simps resolvedBySelections.simps)
    qed
  qed
qed simp_all


text \<open>
  C9, as stated, fails where two linked fields share a storage key: the first call gives
  the payload without an \<open>id\<close> the client identity and writes its field \<open>x\<close> there; the
  second call finds the server identity \<open>S\<close> stored at the key and writes \<open>x\<close> into the
  record \<open>S\<close>, which did not hold it after the first call.
\<close>

theorem renormalize_counterexample:
  "\<not> isl (normalize testEnv rootSource aliasSelector aliasResponse None) \<and>
   stored (normalize testEnv rootSource aliasSelector aliasResponse None) ''client:root:f'' ''x'' =
     Some (Scalar (JNum 1)) \<and>
   stored (normalize testEnv rootSource aliasSelector aliasResponse None) ''S'' ''x'' = None \<and>
   stored (renormalize testEnv rootSource aliasSelector aliasResponse None) ''S'' ''x'' =
     Some (Scalar (JNum 1))"
  by (simp add: renormalize_def normalize_def normalizeResponse_def newNormalizer_def
      aliasSelector_def aliasResponse_def stored_def responseKey_def eval_defs rootSource_def
      testEnv_def field_def)



text \<open>
  C9, amended.  Take a call of \<open>normalize\<close> that returns, and suppose that every
  resolution it made (the identity it gave to an object without a server identity) is
  still held by the record source it leaves: the owner's storage key links to that
  identity, at the item's index for a plural field.  Then a second call with the same
  selector and response, on that record source, returns as well, leaves the record source
  as it found it, returns the same three payload lists, and makes the same resolutions.
\<close>

theorem renormalize_held_resolutions:
  assumes "normalize ext source sel response options = Inr s1"
    and "list_all (held (recordSource s1)) (resolvedBy ext source sel response options)"
  shows "(\<exists>s2. renormalize ext source sel response options = Inr s2 \<and>
            recordSource s2 = recordSource s1 \<and>
            incrementalPayloads s2 = incrementalPayloads s1 \<and>
            handleFieldPayloads s2 = handleFieldPayloads s1 \<and>
            matchFieldPayloads s2 = matchFieldPayloads s1) \<and>
         resolvedBy ext (recordSource s1) sel response options =
           resolvedBy ext source sel response options"
proof -
  let ?env = "newNormalizer ext (sel_variables sel) options"
  let ?F = "recordSource s1"
  from assms(1) obtain r where r: "source (sel_dataID sel) = Some r"
    and tr: "traverseSelections ?env (sel_node sel) (sel_dataID sel) response (newState source) = Inr s1"
    by (auto simp: normalize_def normalizeResponse_def split: option.splits)
  have p: "preserved (newState source) s1"
    by (rule ok_preserved [OF walker_ok(1) tr])
  from preserved_record [OF p, of "sel_dataID sel" r] r obtain r1 where
    r1: "?F (sel_dataID sel) = Some r1"
    by auto
  have w: "within ?F s1"
    by (simp add: within_def)
  have sm: "sim ?F (newState source) (newState ?F)"
    unfolding sim_def
  proof (intro conjI allI impI)
    fix x rt
    assume "recordSource (newState ?F) x = Some rt"
    then show "\<exists>rF. ?F x = Some rF \<and> rec_id rt = rec_id rF \<and> rec_type rt = rec_type rF \<and>
           (\<forall>k. rec_fields rt k = rec_fields rF k \<or>
                (\<exists>rs. recordSource (newState source) x = Some rs \<and>
                      rec_fields rt k = rec_fields rs k))"
      by simp
  qed simp_all
  have h: "list_all (held ?F)
      (resolvedBySelections ?env (sel_node sel) (sel_dataID sel) response (newState source))"
    using assms(2) by (simp add: resolvedBy_def)
  from walker_replays(1) [of ?F "newState source" "sel_dataID sel" ?env "sel_node sel" response]
    sm r h
  have "replays ?F
          (traverseSelections ?env (sel_node sel) (sel_dataID sel) response (newState source))
          (traverseSelections ?env (sel_node sel) (sel_dataID sel) response (newState ?F))"
    by simp
  from replaysD [OF this tr w] obtain s2 where
    s2: "traverseSelections ?env (sel_node sel) (sel_dataID sel) response (newState ?F) = Inr s2"
      "sim ?F s1 s2"
    by blast
  from s2(1) r1 assms(1) have "renormalize ext source sel response options = Inr s2"
    by (simp add: renormalize_def normalize_def normalizeResponse_def)
  moreover from sim_final [OF s2(2)] have "recordSource s2 = ?F"
    by simp
  moreover from s2(2) have "incrementalPayloads s2 = incrementalPayloads s1"
    "handleFieldPayloads s2 = handleFieldPayloads s1"
    "matchFieldPayloads s2 = matchFieldPayloads s1"
    by (simp_all add: sim_def)
  moreover
  from walker_resolved(1) [of ?F "newState source" "sel_dataID sel" ?env "sel_node sel" response]
    sm r h tr w
  have "resolvedBy ext ?F sel response options = resolvedBy ext source sel response options"
    by (simp add: resolvedBy_def)
  ultimately show ?thesis
    by blast
qed

lemma normalize_mixed:
  "normalize testEnv rootSource mixedSelector mixedResponse None =
     Inr ((newState rootSource)\<lparr>recordSource := mixedSource\<rparr>)"
  by (simp add: normalize_def normalizeResponse_def newNormalizer_def mixedSelector_def
      mixedResponse_def mixedSource_def eval_defs newState_def rootSource_def testEnv_def
      string_of_nat.simps fun_upd_twist)

lemma resolvedBy_mixed:
  "resolvedBy testEnv rootSource mixedSelector mixedResponse None =
     [(''root'', ''friends'', Some 2, ''client:root:friends:2''),
      (''root'', ''page'', None, ''client:root:page'')]"
  by (simp add: resolvedBy_def newNormalizer_def mixedSelector_def mixedResponse_def
      resolution_def no_id_def eval_defs newState_def rootSource_def testEnv_def
      string_of_nat.simps)

theorem renormalize_held_resolutions_witness:
  "normalize testEnv rootSource mixedSelector mixedResponse None =
     Inr ((newState rootSource)\<lparr>recordSource := mixedSource\<rparr>) \<and>
   resolvedBy testEnv rootSource mixedSelector mixedResponse None =
     [(''root'', ''friends'', Some 2, ''client:root:friends:2''),
      (''root'', ''page'', None, ''client:root:page'')] \<and>
   list_all (held mixedSource) (resolvedBy testEnv rootSource mixedSelector mixedResponse None) \<and>
   (\<exists>s2. renormalize testEnv rootSource mixedSelector mixedResponse None = Inr s2 \<and>
      recordSource s2 = mixedSource \<and>
      incrementalPayloads s2 = [] \<and>
      handleFieldPayloads s2 = [] \<and>
      matchFieldPayloads s2 = []) \<and>
   resolvedBy testEnv mixedSource mixedSelector mixedResponse None =
     [(''root'', ''friends'', Some 2, ''client:root:friends:2''),
      (''root'', ''page'', None, ''client:root:page'')]"
proof -
  note n = normalize_mixed
  note r = resolvedBy_mixed
  have h: "list_all (held mixedSource)
      (resolvedBy testEnv rootSource mixedSelector mixedResponse None)"
    unfolding r
    by (simp add: held_def mixedSource_def getLinkedRecordID_def getLinkedRecordIDs_def
        setLinkedRecordID_def setLinkedRecordIDs_def)
  from renormalize_held_resolutions [OF n] h r
  have "(\<exists>s2. renormalize testEnv rootSource mixedSelector mixedResponse None = Inr s2 \<and>
      recordSource s2 = mixedSource \<and>
      incrementalPayloads s2 = [] \<and>
      handleFieldPayloads s2 = [] \<and>
      matchFieldPayloads s2 = [])"
    and "resolvedBy testEnv mixedSource mixedSelector mixedResponse None =
     [(''root'', ''friends'', Some 2, ''client:root:friends:2''),
      (''root'', ''page'', None, ''client:root:page'')]"
    by simp_all
  with n r h show ?thesis
    by (intro conjI)
qed

end
